theory Spec2Isabelle
  imports Main "HOL-Library.AList"
begin

section \<open>JavaScript values and string primitives used by bot.js\<close>

text \<open>
  Strings are sequences of UTF-16 code units; the model covers the code units below 256
  (Latin-1), which is what a HOL \<open>char\<close> holds.  The values the bot handles are
  \<open>undefined\<close>, strings and Numbers (job ids, the payload of an event).

  A Number is NaN, an infinity with its sign, or a finite value given by its sign and a
  decimal: \<open>Finite neg m e\<close> is \<open>m\<close> times ten to the power \<open>e\<close>, negated when \<open>neg\<close>
  holds.  Every finite Number has such a decimal, the shortest one that reads back as
  the same Number, which is the one \<open>Number::toString\<close> prints; both zeros are
  \<open>Finite neg 0 e\<close>.  The type also holds decimals that are no Number (too many
  digits for a double); what is proved of every \<open>js_number\<close> holds of every Number.
\<close>

datatype js_number = NaN | Infinite bool | Finite bool nat int

datatype js_value = Undefined | Str string | Num js_number

text \<open>The Number that is the non-negative integer \<open>n\<close>.\<close>

definition integer_number :: "nat \<Rightarrow> js_number" where
  "integer_number n = Finite False n 0"

definition digit_char :: "nat \<Rightarrow> char" where
  "digit_char d = ''0123456789'' ! d"

fun show_nat :: "nat \<Rightarrow> string" where
  "show_nat n = (if n < 10 then [digit_char n] else show_nat (n div 10) @ [digit_char (n mod 10)])"

declare show_nat.simps [simp del]

text \<open>
  \<open>Number::toString\<close> (radix 10) of a positive finite Number.  With the trailing zeros
  of the mantissa moved into the exponent, the digits \<open>ds\<close> of the mantissa are the \<open>k\<close>
  digits of the standard's \<open>s\<close>, and \<open>n\<close> is \<open>k\<close> plus the exponent.  The standard then
  prints: the digits and \<open>n - k\<close> zeros when \<open>k \<le> n \<le> 21\<close>; the digits with a point
  after the first \<open>n\<close> of them when \<open>0 < n \<le> 21\<close>; \<open>0.\<close>, \<open>-n\<close> zeros and the digits
  when \<open>-6 < n \<le> 0\<close>; and otherwise the exponent form, as in \<open>1e+21\<close> and \<open>1.5e-7\<close>.
\<close>

fun strip_zeros :: "nat \<Rightarrow> int \<Rightarrow> nat \<times> int" where
  "strip_zeros m e =
     (if m \<noteq> 0 \<and> m mod 10 = 0 then strip_zeros (m div 10) (e + 1) else (m, e))"

declare strip_zeros.simps [simp del]

definition exponent_part :: "int \<Rightarrow> string" where
  "exponent_part n =
     ''e'' @ (if 0 < n - 1 then ''+'' else ''-'') @ show_nat (nat (abs (n - 1)))"

definition digits_to_string :: "string \<Rightarrow> int \<Rightarrow> string" where
  "digits_to_string ds n =
     (let k = int (length ds)
      in if k \<le> n \<and> n \<le> 21 then ds @ replicate (nat (n - k)) (CHR ''0'')
         else if 0 < n \<and> n \<le> 21 then take (nat n) ds @ ''.'' @ drop (nat n) ds
         else if - 6 < n \<and> n \<le> 0 then ''0.'' @ replicate (nat (- n)) (CHR ''0'') @ ds
         else if k = 1 then ds @ exponent_part n
         else take 1 ds @ ''.'' @ drop 1 ds @ exponent_part n)"

definition positive_to_string :: "nat \<Rightarrow> int \<Rightarrow> string" where
  "positive_to_string m e =
     (case strip_zeros m e of
        (s, e') \<Rightarrow> digits_to_string (show_nat s) (int (length (show_nat s)) + e'))"

fun number_to_string :: "js_number \<Rightarrow> string" where
  "number_to_string NaN = ''NaN''"
| "number_to_string (Infinite neg) = (if neg then ''-Infinity'' else ''Infinity'')"
| "number_to_string (Finite neg m e) =
     (if m = 0 then ''0'' else (if neg then ''-'' else []) @ positive_to_string m e)"

text \<open>ToString, as applied by template literals, property keys and \<open>parseInt\<close>.\<close>

fun to_str :: "js_value \<Rightarrow> string" where
  "to_str Undefined = ''undefined''"
| "to_str (Str s) = s"
| "to_str (Num x) = number_to_string x"

text \<open>ToBoolean: \<open>undefined\<close>, the empty string, NaN and the zeros are falsy.\<close>

fun truthy :: "js_value \<Rightarrow> bool" where
  "truthy Undefined = False"
| "truthy (Str s) = (s \<noteq> [])"
| "truthy (Num NaN) = False"
| "truthy (Num (Infinite neg)) = True"
| "truthy (Num (Finite neg m e)) = (m \<noteq> 0)"

text \<open>
  The text of a message activity is a string, or absent: line 84 calls \<open>trim\<close> on
  \<open>text || ''\<close>, which only a string has.  \<open>text || ''\<close> is the text, and the empty
  string when the text is absent (or empty).
\<close>

definition or_empty :: "string option \<Rightarrow> string" where
  "or_empty v = (case v of None \<Rightarrow> [] | Some s \<Rightarrow> s)"

text \<open>\<open>activity.text\<close> as a value: what a dialog step receives as its result.\<close>

definition text_value :: "string option \<Rightarrow> js_value" where
  "text_value v = (case v of None \<Rightarrow> Undefined | Some s \<Rightarrow> Str s)"

text \<open>
  White space and line terminators below 256: TAB, LF, VT, FF, CR, SP, NBSP.
  \<open>String.prototype.trim\<close> strips them at both ends, \<open>parseInt\<close> at the start.
\<close>

definition is_ws :: "char \<Rightarrow> bool" where
  "is_ws c = (of_char c \<in> {9, 10, 11, 12, 13, 32, 160 :: nat})"

definition trim :: "string \<Rightarrow> string" where
  "trim s = rev (dropWhile is_ws (rev (dropWhile is_ws s)))"

text \<open>
  \<open>toLowerCase\<close> on Latin-1: A-Z (65..90) and the accented capitals (192..222 but the
  multiplication sign 215) move up by 32, which sets bit 5 of the code unit.
\<close>

definition is_upper :: "char \<Rightarrow> bool" where
  "is_upper c =
     (let n = of_char c :: nat
      in (65 \<le> n \<and> n \<le> 90) \<or> (192 \<le> n \<and> n \<le> 222 \<and> n \<noteq> 215))"

definition set_bit5 :: "char \<Rightarrow> char" where
  "set_bit5 c = (case c of Char b0 b1 b2 b3 b4 b5 b6 b7 \<Rightarrow> Char b0 b1 b2 b3 b4 True b6 b7)"

definition to_lower_char :: "char \<Rightarrow> char" where
  "to_lower_char c = (if is_upper c then set_bit5 c else c)"

definition toLowerCase :: "string \<Rightarrow> string" where
  "toLowerCase s = map to_lower_char s"

text \<open>\<open>s.split(' ')\<close>: never empty, \<open>''.split(' ')\<close> is \<open>['']\<close>.\<close>

fun split_space :: "string \<Rightarrow> string list" where
  "split_space [] = [[]]"
| "split_space (c # cs) =
     (if c = CHR '' '' then [] # split_space cs
      else (case split_space cs of w # ws \<Rightarrow> (c # w) # ws | [] \<Rightarrow> [[c]]))"

text \<open>\<open>words[i]\<close>: \<open>undefined\<close> past the end of the array.\<close>

fun word_at :: "string list \<Rightarrow> nat \<Rightarrow> js_value" where
  "word_at [] i = Undefined"
| "word_at (w # ws) 0 = Str w"
| "word_at (w # ws) (Suc i) = word_at ws i"

definition is_digit :: "char \<Rightarrow> bool" where
  "is_digit c = (c \<in> set ''0123456789'')"

definition is_hex_digit :: "char \<Rightarrow> bool" where
  "is_hex_digit c = (c \<in> set ''0123456789abcdefABCDEF'')"

text \<open>
  \<open>isNaN(parseInt(v))\<close>.  \<open>parseInt\<close> converts its argument to a string, skips leading
  white space and one sign, switches to radix 16 after a \<open>0x\<close> prefix, and reads the
  longest run of digits; the result is NaN exactly when that run is empty.  What follows
  the digits is ignored, so \<open>parseInt('5abc')\<close> is 5.
\<close>

definition strip_sign :: "string \<Rightarrow> string" where
  "strip_sign s = (case s of [] \<Rightarrow> [] | c # r \<Rightarrow> if c = CHR ''+'' \<or> c = CHR ''-'' then r else s)"

fun no_digits :: "string \<Rightarrow> bool" where
  "no_digits [] = True"
| "no_digits [c] = (\<not> is_digit c)"
| "no_digits (c # x # r) =
     (if c = CHR ''0'' \<and> (x = CHR ''x'' \<or> x = CHR ''X'')
      then (case r of [] \<Rightarrow> True | h # _ \<Rightarrow> \<not> is_hex_digit h)
      else \<not> is_digit c)"

definition parseInt_isNaN :: "js_value \<Rightarrow> bool" where
  "parseInt_isNaN v = no_digits (strip_sign (dropWhile is_ws (to_str v)))"

section \<open>Data model\<close>

text \<open>
  A conversation reference, as \<open>TurnContext.getConversationReference\<close> captures it from
  an activity: the channel, the user (\<open>activity.from\<close>) and the conversation.  The user
  state is stored per channel and user, the conversation state per channel and
  conversation.
\<close>

record conv_ref =
  channel_id :: string
  user_id :: string
  conversation_id :: string

definition user_key :: "conv_ref \<Rightarrow> string \<times> string" where
  "user_key r = (channel_id r, user_id r)"

definition conv_key :: "conv_ref \<Rightarrow> string \<times> string" where
  "conv_key r = (channel_id r, conversation_id r)"

text \<open>The value \<open>{ completed: false, reference: reference }\<close> of line 148.\<close>

record job_info =
  completed :: bool
  reference :: conv_ref

text \<open>
  The \<open>jobs\<close> object: property keys are strings, a key is held once, and a new key is
  added behind the others (\<open>AList.update\<close>).
\<close>

type_synonym registry = "(string \<times> job_info) list"

text \<open>The user profile \<open>{ name, city }\<close>; \<open>{}\<close> has both fields \<open>undefined\<close>.\<close>

record profile =
  name :: js_value
  city :: js_value

definition empty_profile :: profile where
  "empty_profile = \<lparr>name = Undefined, city = Undefined\<rparr>"

datatype waterfall_id = WHO_ARE_YOU | HELLO_USER

datatype prompt_id = NAME_PROMPT | CITY_PROMPT

text \<open>
  An entry of the dialog stack: a waterfall with the index of the step it last ran, or
  a text prompt with the prompt text it was begun with.  The head of the list is the
  active dialog.
\<close>

datatype frame = WaterfallFrame waterfall_id nat | PromptFrame prompt_id string

text \<open>
  The three storage scopes.  Reading the profile goes through \<open>get(context, {})\<close>, so an
  absent profile is \<open>{}\<close>; a conversation with no stored dialog state is \<open>None\<close>.
\<close>

record store =
  jobs :: registry
  users :: "string \<times> string \<Rightarrow> profile"
  convs :: "string \<times> string \<Rightarrow> frame list option"

definition empty_store :: store where
  "empty_store = \<lparr>jobs = [], users = (\<lambda>k. empty_profile), convs = (\<lambda>k. None)\<rparr>"

text \<open>The dialog stack as \<open>DialogSet.createContext\<close> reads it (default: empty).\<close>

definition stack_of :: "frame list option \<Rightarrow> frame list" where
  "stack_of l = (case l of None \<Rightarrow> [] | Some st \<Rightarrow> st)"

section \<open>The dialog engine\<close>

text \<open>
  What a dialog step sees and changes within one turn: the dialog stack, the cached
  profile of the turn's user, and the activities sent through the turn's context.
\<close>

record dctx =
  stack :: "frame list"
  user :: profile
  out :: "string list"

definition sendActivity :: "string \<Rightarrow> dctx \<Rightarrow> dctx" where
  "sendActivity m c = c\<lparr>out := out c @ [m]\<rparr>"

text \<open>What a waterfall step returns: it begins a prompt, or ends its dialog.\<close>

datatype step_result = BeginPrompt prompt_id string | EndDialog js_value

text \<open>The four steps of bot.js, lines 51 to 75; the first argument is \<open>step.result\<close>.\<close>

definition promptForName :: "js_value \<Rightarrow> dctx \<Rightarrow> dctx \<times> step_result" where
  "promptForName result c = (c, BeginPrompt NAME_PROMPT ''What is your name?'')"

definition promptForCity :: "js_value \<Rightarrow> dctx \<Rightarrow> dctx \<times> step_result" where
  "promptForCity result c =
     (c\<lparr>user := (user c)\<lparr>name := result\<rparr>\<rparr>, BeginPrompt CITY_PROMPT ''What city are you from?'')"

definition captureCity :: "js_value \<Rightarrow> dctx \<Rightarrow> dctx \<times> step_result" where
  "captureCity result c = (c\<lparr>user := (user c)\<lparr>city := result\<rparr>\<rparr>, EndDialog Undefined)"

definition displayProfile :: "js_value \<Rightarrow> dctx \<Rightarrow> dctx \<times> step_result" where
  "displayProfile result c =
     (sendActivity (''Hello, '' @ to_str (name (user c)) @ '' from '' @ to_str (city (user c))) c,
      EndDialog Undefined)"

text \<open>The step lists given to the two \<open>WaterfallDialog\<close>s in the constructor.\<close>

fun steps :: "waterfall_id \<Rightarrow> (js_value \<Rightarrow> dctx \<Rightarrow> dctx \<times> step_result) list" where
  "steps WHO_ARE_YOU = [promptForName, promptForCity, captureCity]"
| "steps HELLO_USER = [displayProfile]"

text \<open>
  Modelled from the spec: the dialog engine itself (\<open>DialogSet\<close>, \<open>WaterfallDialog\<close> and
  \<open>TextPrompt\<close> of the botbuilder-dialogs package) is not part of bot.js.  Section 4.3:
  a stack machine, one stack per conversation; a prompt step suspends waiting for a text
  reply and binds it as the next step's result; ending a dialog pops the stack; a
  suspended prompt is resumed by the next inbound text of its conversation; with no
  active dialog the text is dropped.  Two details come from the package: a waterfall run
  past its last step ends, and a prompt that finds itself on top again (a dialog begun
  above it has ended) or that receives an empty text sends its prompt text again.
\<close>

definition runStep :: "waterfall_id \<Rightarrow> nat \<Rightarrow> js_value \<Rightarrow> dctx \<Rightarrow> dctx \<times> step_result" where
  "runStep d i result c = (if i < length (steps d) then (steps d ! i) result c else (c, EndDialog result))"

text \<open>
  Modelled from the spec: \<open>endDialog\<close> of the package.  \<open>resumeDialog rest result c\<close>: the
  active dialog has ended with \<open>result\<close> and has been popped; \<open>rest\<close> is what lay under
  it.  A waterfall underneath runs its next step, a prompt underneath prompts again, an
  empty stack ends the turn.
\<close>

fun resumeDialog :: "frame list \<Rightarrow> js_value \<Rightarrow> dctx \<Rightarrow> dctx" where
  "resumeDialog [] result c = c\<lparr>stack := []\<rparr>"
| "resumeDialog (PromptFrame p txt # rest) result c =
     sendActivity txt (c\<lparr>stack := PromptFrame p txt # rest\<rparr>)"
| "resumeDialog (WaterfallFrame d i # rest) result c =
     (case runStep d (Suc i) result c of
        (c', BeginPrompt p txt) \<Rightarrow>
          sendActivity txt (c'\<lparr>stack := PromptFrame p txt # WaterfallFrame d (Suc i) # rest\<rparr>)
      | (c', EndDialog r) \<Rightarrow> resumeDialog rest r c')"

text \<open>
  Modelled from the spec: \<open>dc.beginDialog(id)\<close> of the package, for a waterfall: push it
  and run its first step.
\<close>

definition beginDialog :: "waterfall_id \<Rightarrow> dctx \<Rightarrow> dctx" where
  "beginDialog d c =
     (case runStep d 0 Undefined c of
        (c', BeginPrompt p txt) \<Rightarrow>
          sendActivity txt (c'\<lparr>stack := PromptFrame p txt # WaterfallFrame d 0 # stack c\<rparr>)
      | (c', EndDialog r) \<Rightarrow> resumeDialog (stack c) r c')"

text \<open>
  Modelled from the spec: \<open>dc.continueDialog()\<close> of the package, on a message activity
  with text \<open>input\<close>.  A text prompt accepts
  a non-empty string and ends with it as its result; otherwise it prompts again (unless
  the turn has already responded).  A waterfall on top takes the text as the result of
  its current step.
\<close>

fun continueDialog :: "js_value \<Rightarrow> dctx \<Rightarrow> dctx" where
  "continueDialog input c =
     (case stack c of
        [] \<Rightarrow> c
      | PromptFrame p txt # rest \<Rightarrow>
          (case input of
             Str (x # xs) \<Rightarrow> resumeDialog rest input c
           | _ \<Rightarrow> if out c = [] then sendActivity txt c else c)
      | WaterfallFrame d i # rest \<Rightarrow> resumeDialog (WaterfallFrame d i # rest) input c)"

declare continueDialog.simps [simp del]

section \<open>The bot: one turn\<close>

text \<open>
  The collaborators of a turn: the clock read by \<open>new Date()\<close> (milliseconds since the
  epoch) and the adapter.  \<open>adapter.continueConversation\<close> either runs the logic it is
  given in a turn on the stored reference, or rejects because the reference cannot be
  reached.  In the second case nothing is delivered to that conversation, and whatever
  the logic had assigned in memory before its first send failed is never saved, since
  the rejection leaves \<open>onTurn\<close> before its \<open>saveChanges\<close> calls.  The storage and the
  sending of replies in the caller's own turn are taken to work.
\<close>

datatype adapter = Reachable | Unreachable

record env =
  now :: nat
  adapter :: adapter

datatype error = ResumeFailed | TypeError

text \<open>
  An inbound activity: where it comes from and what it is.  A message carries its text
  (a string, or none), an event its name and value, a conversation update the names of
  the members added.
\<close>

datatype activity_kind =
    Message "string option"
  | Event js_value js_value
  | ConversationUpdate "js_value list"
  | OtherActivity

record activity =
  source :: conv_ref
  kind :: activity_kind

text \<open>
  The state of a running turn: the storage as written so far, the \<open>jobs\<close> object cached
  in the turn context, the activities sent through \<open>turnContext\<close>, the reference
  \<open>continueConversation\<close> was called with (if it was), the activities sent through
  \<open>proactiveTurnContext\<close>, and the error thrown and not caught (if any).
\<close>

record turn =
  storage :: store
  jobs_c :: registry
  sent :: "string list"
  resumed :: "conv_ref option"
  notified :: "string list"
  thrown :: "error option"

definition reply :: "string \<Rightarrow> turn \<Rightarrow> turn" where
  "reply m t = t\<lparr>sent := sent t @ [m]\<rparr>"

definition getMilliseconds :: "nat \<Rightarrow> nat" where
  "getMilliseconds d = d mod 1000"

text \<open>
  \<open>isEmpty(obj)\<close>, line 228: true when \<open>obj\<close> has no own property.  \<open>jobs[key]\<close> is
  \<open>undefined\<close> or a job record, which has two.
\<close>

definition isEmpty :: "job_info option \<Rightarrow> bool" where
  "isEmpty obj = (case obj of None \<Rightarrow> True | Some info \<Rightarrow> False)"

text \<open>
  \<open>createJob\<close>, lines 128 to 162.  \<open>jobIdNumber\<close> is the integer \<open>getMilliseconds\<close>
  returns.  \<open>jobsList.set\<close> assigns a property of the cached state and sending in the
  caller's own turn succeeds, so neither \<open>catch\<close> is entered.
\<close>

definition createJob :: "nat \<Rightarrow> conv_ref \<Rightarrow> turn \<Rightarrow> turn" where
  "createJob date ref t =
     (let jobIdNumber = Num (integer_number (getMilliseconds date));
          jobInfo = map_of (jobs_c t) (to_str jobIdNumber)
      in if isEmpty jobInfo
         then (let t1 = reply (''Need to create new job ID: '' @ to_str jobIdNumber) t;
                   t2 = t1\<lparr>jobs_c := AList.update (to_str jobIdNumber)
                                      \<lparr>completed = False, reference = ref\<rparr> (jobs_c t1)\<rparr>
               in reply ''Successful write to log.'' t2)
         else t)"

text \<open>
  Writing a conversation's dialog state back: \<open>saveChanges\<close> writes only when the cached
  state differs from what was loaded (\<open>createContext\<close> has put a stack where none was).
\<close>

definition save_conv :: "conv_ref \<Rightarrow> frame list option \<Rightarrow> frame list \<Rightarrow> store \<Rightarrow> store" where
  "save_conv r loaded st s =
     (if loaded = Some st then s else s\<lparr>convs := (convs s)(conv_key r := Some st)\<rparr>)"

text \<open>
  The logic passed to \<open>continueConversation\<close>, lines 184 to 201, run in a turn on the
  stored reference: mark the job, notify, begin a dialog chosen by \<open>user.city\<close>, save the
  conversation state of that turn.  The user state of that turn is not saved.
\<close>

definition notification :: "js_value \<Rightarrow> conv_ref \<Rightarrow> turn \<Rightarrow> turn" where
  "notification jobIdNumber ref t =
     (let jobs1 = AList.map_entry (to_str jobIdNumber) (\<lambda>info. info\<lparr>completed := True\<rparr>) (jobs_c t);
          s = storage t;
          loaded = convs s (conv_key ref);
          dc = \<lparr>stack = stack_of loaded, user = users s (user_key ref),
                out = [''Your queued job '' @ to_str jobIdNumber @ '' just completed.'']\<rparr>;
          dc1 = (if truthy (city (user dc)) then beginDialog HELLO_USER dc
                 else beginDialog WHO_ARE_YOU dc)
      in t\<lparr>jobs_c := jobs1, notified := out dc1, storage := save_conv ref loaded (stack dc1) s\<rparr>)"

definition continueConversation :: "adapter \<Rightarrow> conv_ref \<Rightarrow> (turn \<Rightarrow> turn) \<Rightarrow> turn \<Rightarrow> turn" where
  "continueConversation ad ref logic t =
     (case ad of
        Reachable \<Rightarrow> logic (t\<lparr>resumed := Some ref\<rparr>)
      | Unreachable \<Rightarrow> t\<lparr>resumed := Some ref, thrown := Some ResumeFailed\<rparr>)"

text \<open>
  \<open>completeJob\<close>, lines 164 to 209.  \<open>isEmpty(jobInfo)\<close> is the case \<open>None\<close>.  A stored
  reference is an object, so \<open>reference && !completed\<close> is \<open>!completed\<close>.  Nothing here
  catches what \<open>continueConversation\<close> throws.
\<close>

definition completeJob :: "adapter \<Rightarrow> js_value \<Rightarrow> turn \<Rightarrow> turn" where
  "completeJob ad jobIdNumber t =
     (case map_of (jobs_c t) (to_str jobIdNumber) of
        None \<Rightarrow> reply (''Sorry no job with ID '' @ to_str jobIdNumber @ ''.'') t
      | Some jobInfo \<Rightarrow>
          if \<not> completed jobInfo
          then (let t1 = continueConversation ad (reference jobInfo)
                           (notification jobIdNumber (reference jobInfo)) t
                in if thrown t1 \<noteq> None then t1
                   else reply ''Job completed. Notification sent.'' t1)
          else if completed jobInfo
          then reply ''This job is already completed, please start a new job.'' t
          else t)"

text \<open>
  \<open>Object.keys(jobs)\<close> lists the keys that are array indices in ascending numeric
  order, then the other keys in the order they were added.  The entries are listed in
  that order, each key with its value \<open>jobs[key]\<close>.
\<close>

definition digits_val :: "string \<Rightarrow> nat" where
  "digits_val k = foldl (\<lambda>a c. 10 * a + (of_char c - 48)) 0 k"

definition is_array_index :: "string \<Rightarrow> bool" where
  "is_array_index k =
     (k \<noteq> [] \<and> list_all is_digit k \<and> (k = ''0'' \<or> hd k \<noteq> CHR ''0'') \<and> digits_val k < 4294967295)"

definition object_entries :: "registry \<Rightarrow> (string \<times> job_info) list" where
  "object_entries js =
     sort_key (\<lambda>p. digits_val (fst p)) (filter (\<lambda>p. is_array_index (fst p)) js)
     @ filter (\<lambda>p. \<not> is_array_index (fst p)) js"

text \<open>
  One row of the table, line 219: the key, the conversation id up to its first \<open>|\<close>, and
  the completed flag printed as \<open>true\<close> or \<open>false\<close>.
\<close>

definition row_text :: "string \<Rightarrow> string \<Rightarrow> bool \<Rightarrow> string" where
  "row_text key cid flag =
     key @ '' &nbsp; | '' @ takeWhile (\<lambda>c. c \<noteq> CHR ''|'') cid
     @ '' &nbsp; | '' @ (if flag then ''true'' else ''false'')"

definition show_row :: "string \<times> job_info \<Rightarrow> string" where
  "show_row p = row_text (fst p) (conversation_id (reference (snd p))) (completed (snd p))"

definition show_rows :: "registry \<Rightarrow> string list" where
  "show_rows js = map show_row (object_entries js)"

fun join_br :: "string list \<Rightarrow> string" where
  "join_br [] = []"
| "join_br [r] = r"
| "join_br (r # q # rs) = r @ ''<br>'' @ join_br (q # rs)"

definition table_header :: string where
  "table_header =
     ''| Job number &nbsp; | Conversation ID &nbsp; | Completed |<br>'' @ ''| :--- | :---: | :---: |<br>''"

text \<open>\<open>showJobs\<close>, lines 212 to 224.\<close>

definition showJobs :: "turn \<Rightarrow> turn" where
  "showJobs t =
     (if jobs_c t \<noteq> []
      then reply (table_header @ join_br (show_rows (jobs_c t))) t
      else reply ''The job log is empty.'' t)"

text \<open>The double quote character, for the two replies that contain it.\<close>

definition dq :: string where
  "dq = [CHR 0x22]"

definition usage_hint :: string where
  "usage_hint = ''Enter the job ID number after '' @ dq @ ''done'' @ dq @ ''.''"

definition welcome_message :: string where
  "welcome_message = ''Say '' @ dq @ ''run'' @ dq @ '' to start a job, '' @ dq @ ''show'' @ dq
     @ '' to view running jobs, or '' @ dq @ ''done <job number>'' @ dq @ '' to complete a job.''"

text \<open>The command branch of a message turn, lines 90 to 105.\<close>

definition dispatch :: "env \<Rightarrow> conv_ref \<Rightarrow> string \<Rightarrow> turn \<Rightarrow> turn" where
  "dispatch e ref utterance t =
     (if utterance = ''run'' then createJob (now e) ref t
      else if utterance = ''show'' then showJobs t
      else if word_at (split_space utterance) 0 = Str ''done''
      then (let words = split_space utterance
            in if \<not> parseInt_isNaN (word_at words 1)
               then completeJob (adapter e) (word_at words 1) t
               else if word_at words 0 = Str ''done''
                       \<and> (length words < 2 \<or> parseInt_isNaN (word_at words 1))
               then reply usage_hint t
               else t)
      else t)"

text \<open>
  The three \<open>saveChanges\<close> at the end of \<open>onTurn\<close>.  A scope that the turn never read is
  not written; writing back an unchanged value changes nothing.
\<close>

definition save_jobs :: "turn \<Rightarrow> turn" where
  "save_jobs t = t\<lparr>storage := (storage t)\<lparr>jobs := jobs_c t\<rparr>\<rparr>"

definition save_dialog :: "conv_ref \<Rightarrow> frame list option \<Rightarrow> dctx \<Rightarrow> turn \<Rightarrow> turn" where
  "save_dialog ref loaded dc t =
     t\<lparr>sent := out dc,
       storage := save_conv ref loaded (stack dc)
                    ((storage t)\<lparr>users := (users (storage t))(user_key ref := user dc)\<rparr>)\<rparr>"

text \<open>
  \<open>onTurn\<close>, lines 81 to 125.  An error thrown inside leaves \<open>onTurn\<close> before any
  \<open>saveChanges\<close>.  \<open>membersAdded[0].name\<close> throws a TypeError when no member was added.
\<close>

definition new_turn :: "store \<Rightarrow> turn" where
  "new_turn s =
     \<lparr>storage = s, jobs_c = jobs s, sent = [], resumed = None, notified = [], thrown = None\<rparr>"

definition on_turn :: "env \<Rightarrow> activity \<Rightarrow> store \<Rightarrow> turn" where
  "on_turn e a s =
     (let t0 = new_turn s;
          ref = source a
      in case kind a of
           Message input \<Rightarrow>
             (let utterance = toLowerCase (trim (or_empty input));
                  loaded = convs s (conv_key ref);
                  t1 = dispatch e ref utterance t0
              in if thrown t1 \<noteq> None then t1
                 else (let dc = \<lparr>stack = stack_of loaded,
                                 user = users (storage t1) (user_key ref), out = sent t1\<rparr>;
                           dc1 = (if out dc = [] then continueDialog (text_value input) dc
                                  else dc)
                       in save_jobs (save_dialog ref loaded dc1 t1)))
         | Event nm v \<Rightarrow>
             (if nm = Str ''jobCompleted''
              then (let t1 = (if \<not> parseInt_isNaN v then completeJob (adapter e) v t0 else t0)
                    in if thrown t1 \<noteq> None then t1 else save_jobs t1)
              else save_jobs t0)
         | ConversationUpdate membersAdded \<Rightarrow>
             (case membersAdded of
                [] \<Rightarrow> t0\<lparr>thrown := Some TypeError\<rparr>
              | m # ms \<Rightarrow>
                  save_jobs (if m \<noteq> Str ''Bot'' then reply welcome_message t0 else t0))
         | OtherActivity \<Rightarrow> save_jobs t0)"

text \<open>A sequence of turns on the storage; a turn that throws has written nothing.\<close>

fun run_turns :: "store \<Rightarrow> (env \<times> activity) list \<Rightarrow> store" where
  "run_turns s [] = s"
| "run_turns s ((e, a) # rest) = run_turns (storage (on_turn e a s)) rest"

section \<open>The command classification of the specification\<close>

text \<open>
  Section 4.2 of the specification, in its words: the text, trimmed and lower-cased, is
  RUN when it is exactly \<open>run\<close>, SHOW when it is exactly \<open>show\<close>, DONE with the job id
  when its first token is \<open>done\<close> and its second token parses as an integer (as
  \<open>parseInt\<close> parses), DONE_MISSING_ID when its first token is \<open>done\<close> and the second
  is absent or does not parse, and UNRECOGNIZED otherwise.
\<close>

datatype command = RUN | SHOW | DONE string | DONE_MISSING_ID | UNRECOGNIZED

definition utterance_of :: "string option \<Rightarrow> string" where
  "utterance_of input = toLowerCase (trim (or_empty input))"

definition classify :: "string option \<Rightarrow> command" where
  "classify input =
     (let u = utterance_of input; tokens = split_space u
      in if u = ''run'' then RUN
         else if u = ''show'' then SHOW
         else if word_at tokens 0 = Str ''done''
         then (case word_at tokens 1 of
                 Str w \<Rightarrow> if parseInt_isNaN (Str w) then DONE_MISSING_ID else DONE w
               | _ \<Rightarrow> DONE_MISSING_ID)
         else UNRECOGNIZED)"

text \<open>The dispatch table of section 4.2.\<close>

fun perform :: "env \<Rightarrow> conv_ref \<Rightarrow> command \<Rightarrow> turn \<Rightarrow> turn" where
  "perform e ref RUN t = createJob (now e) ref t"
| "perform e ref SHOW t = showJobs t"
| "perform e ref (DONE w) t = completeJob (adapter e) (Str w) t"
| "perform e ref DONE_MISSING_ID t = reply usage_hint t"
| "perform e ref UNRECOGNIZED t = t"

section \<open>Inbound activities used in the statements\<close>

text \<open>A message with a text, \<open>done\<close> with an id, and the \<open>jobCompleted\<close> event with a value.\<close>

definition message :: "conv_ref \<Rightarrow> string \<Rightarrow> activity" where
  "message r x = \<lparr>source = r, kind = Message (Some x)\<rparr>"

definition done_message :: "conv_ref \<Rightarrow> string \<Rightarrow> activity" where
  "done_message r w = message r (''done '' @ w)"

definition job_completed_event :: "conv_ref \<Rightarrow> js_value \<Rightarrow> activity" where
  "job_completed_event r v = \<lparr>source = r, kind = Event (Str ''jobCompleted'') v\<rparr>"

text \<open>The dialog stack of every conversation, as the dialog engine reads the storage.\<close>

definition dialog_stacks :: "store \<Rightarrow> string \<times> string \<Rightarrow> frame list" where
  "dialog_stacks s k = stack_of (convs s k)"

text \<open>
  A dialog stack between two turns: empty, or with a prompt waiting on top.  A waterfall
  is on top only while one of its steps runs.
\<close>

fun settled :: "frame list \<Rightarrow> bool" where
  "settled [] = True"
| "settled (PromptFrame p txt # rest) = True"
| "settled (WaterfallFrame d i # rest) = False"

text \<open>The turn context a message turn hands to \<open>continueDialog\<close> when no command replied.\<close>

definition dialog_context :: "conv_ref \<Rightarrow> store \<Rightarrow> dctx" where
  "dialog_context r s =
     \<lparr>stack = stack_of (convs s (conv_key r)), user = users s (user_key r), out = []\<rparr>"

text \<open>Two conversations and two collaborator settings for the worked examples.\<close>

definition alice :: conv_ref where
  "alice = \<lparr>channel_id = ''emulator'', user_id = ''alice'', conversation_id = ''c1|livechat''\<rparr>"

definition bob :: conv_ref where
  "bob = \<lparr>channel_id = ''emulator'', user_id = ''bob'', conversation_id = ''c2''\<rparr>"

definition reachable_at :: "nat \<Rightarrow> env" where
  "reachable_at d = \<lparr>now = d, adapter = Reachable\<rparr>"

definition unreachable_at :: "nat \<Rightarrow> env" where
  "unreachable_at d = \<lparr>now = d, adapter = Unreachable\<rparr>"

text \<open>The completion notice of line 190 and the greeting of line 73.\<close>

definition notice :: "string \<Rightarrow> string" where
  "notice w = ''Your queued job '' @ w @ '' just completed.''"

definition greeting :: "profile \<Rightarrow> string" where
  "greeting p = ''Hello, '' @ to_str (name p) @ '' from '' @ to_str (city p)"

text \<open>The dialog stack while \<open>WHO_ARE_YOU\<close> waits for the name.\<close>

definition awaiting_name :: "frame list" where
  "awaiting_name = [PromptFrame NAME_PROMPT ''What is your name?'', WaterfallFrame WHO_ARE_YOU 0]"

text \<open>The record a \<open>run\<close> command creates, for a clock setting and a sender.\<close>

definition run_record :: "env \<times> conv_ref \<Rightarrow> string \<times> job_info" where
  "run_record p =
     (show_nat (getMilliseconds (now (fst p))), \<lparr>completed = False, reference = snd p\<rparr>)"

text \<open>The storage after Alice has said \<open>run\<close> at millisecond 5 of some second.\<close>

definition one_job_store :: store where
  "one_job_store = storage (on_turn (reachable_at 12005) (message alice ''run'') empty_store)"

text \<open>The storage after Alice has said \<open>run\<close> twice, at milliseconds 5 and 20.\<close>

definition two_job_store :: store where
  "two_job_store =
     run_turns empty_store
       [(reachable_at 12005, message alice ''run''), (reachable_at 12020, message alice ''run'')]"

text \<open>
  From there Bob completes job 5 and Alice answers the two prompts with \<open>Ada\<close> and
  \<open>Seattle\<close>.
\<close>

definition onboarded_store :: store where
  "onboarded_store =
     run_turns two_job_store
       [(reachable_at 13000, done_message bob ''5''), (reachable_at 15000, message alice ''Ada''),
        (reachable_at 16000, message alice ''Seattle'')]"

text \<open>The storage after Alice has said \<open>run\<close> three times, at milliseconds 5, 20 and 30.\<close>

definition three_job_store :: store where
  "three_job_store =
     run_turns empty_store
       [(reachable_at 12005, message alice ''run''), (reachable_at 12020, message alice ''run''),
        (reachable_at 12030, message alice ''run'')]"

text \<open>
  From there Bob completes jobs 5 and 20 one after the other, and only then Alice
  answers \<open>Ada\<close> and \<open>Seattle\<close>.
\<close>

definition interrupted_store :: store where
  "interrupted_store =
     run_turns three_job_store
       [(reachable_at 13000, done_message bob ''5''), (reachable_at 14000, done_message bob ''20''),
        (reachable_at 15000, message alice ''Ada''), (reachable_at 16000, message alice ''Seattle'')]"

section \<open>Digits and white space\<close>

lemma digit_not_ws: "is_digit c \<Longrightarrow> \<not> is_ws c"
  by (auto simp: is_digit_def is_ws_def)

lemma digit_lower: "is_digit c \<Longrightarrow> to_lower_char c = c"
  by (auto simp: is_digit_def to_lower_char_def is_upper_def)

lemma digit_not_sign:
  "is_digit c \<Longrightarrow> c \<noteq> CHR ''+'' \<and> c \<noteq> CHR ''-'' \<and> c \<noteq> CHR ''x'' \<and> c \<noteq> CHR ''X''"
  by (auto simp: is_digit_def)

lemma trim_id: "s \<noteq> [] \<Longrightarrow> \<not> is_ws (hd s) \<Longrightarrow> \<not> is_ws (last s) \<Longrightarrow> trim s = s"
proof -
  assume a: "s \<noteq> []" "\<not> is_ws (hd s)" "\<not> is_ws (last s)"
  have 1: "dropWhile is_ws s = s" using a by (cases s) auto
  have 2: "dropWhile is_ws (rev s) = rev s"
    using a by (cases "rev s") (auto simp: hd_rev[symmetric])
  show ?thesis by (simp add: trim_def 1 2)
qed

lemma parseInt_digits: "w \<noteq> [] \<Longrightarrow> list_all is_digit w \<Longrightarrow> \<not> parseInt_isNaN (Str w)"
proof -
  assume ne: "w \<noteq> []" and dg: "list_all is_digit w"
  then obtain c r where w: "w = c # r" by (cases w) auto
  with dg have c: "is_digit c" by simp
  have d1: "dropWhile is_ws w = w" using w c by (simp add: digit_not_ws)
  have d2: "strip_sign w = w" using w c digit_not_sign[OF c] by (simp add: strip_sign_def)
  have "\<not> no_digits w"
  proof (cases r)
    case Nil
    then show ?thesis using w c by simp
  next
    case (Cons x r')
    with dg w have "is_digit x" by simp
    then show ?thesis using w c Cons digit_not_sign[of x] by simp
  qed
  then show ?thesis by (simp add: parseInt_isNaN_def d1 d2)
qed

section \<open>Decimal numerals\<close>

lemma digit_char_cases:
  assumes "d < (10::nat)"
  shows "d \<in> {0, 1, 2, 3, 4, 5, 6, 7, 8, 9}"
  using assms by auto

lemma of_char_digit_char: "d < 10 \<Longrightarrow> (of_char (digit_char d) :: nat) = 48 + d"
  using digit_char_cases[of d] by (auto simp: digit_char_def)

lemma is_digit_digit_char: "d < 10 \<Longrightarrow> is_digit (digit_char d)"
  using digit_char_cases[of d] by (auto simp: digit_char_def is_digit_def)

lemma digits_val_snoc: "digits_val (xs @ [c]) = 10 * digits_val xs + (of_char c - 48)"
  by (simp add: digits_val_def)

lemma digits_val_single: "digits_val [c] = of_char c - 48"
  by (simp add: digits_val_def)

lemma show_nat_small: "n < 10 \<Longrightarrow> show_nat n = [digit_char n]"
  by (subst show_nat.simps) simp

lemma show_nat_large:
  "\<not> n < 10 \<Longrightarrow> show_nat n = show_nat (n div 10) @ [digit_char (n mod 10)]"
  by (subst show_nat.simps) simp

lemma digits_val_show_nat: "digits_val (show_nat n) = n"
proof (induction n rule: show_nat.induct)
  case (1 n)
  show ?case
  proof (cases "n < 10")
    case True
    then show ?thesis
      by (simp add: show_nat_small digits_val_single of_char_digit_char)
  next
    case False
    have m: "n mod 10 < 10" by simp
    have "digits_val (show_nat n) = 10 * digits_val (show_nat (n div 10)) + n mod 10"
      unfolding show_nat_large[OF False] digits_val_snoc of_char_digit_char[OF m] by simp
    also have "\<dots> = 10 * (n div 10) + n mod 10"
      using 1[OF False] by simp
    finally show ?thesis by simp
  qed
qed

lemma show_nat_inj: "show_nat m = show_nat n \<Longrightarrow> m = n"
  by (metis digits_val_show_nat)

lemma show_nat_digits: "show_nat n \<noteq> [] \<and> list_all is_digit (show_nat n)"
proof (induction n rule: show_nat.induct)
  case (1 n)
  show ?case
  proof (cases "n < 10")
    case True
    then show ?thesis by (simp add: show_nat_small is_digit_digit_char)
  next
    case False
    then show ?thesis
      using 1[OF False] by (simp add: show_nat_large is_digit_digit_char)
  qed
qed

section \<open>Numbers as strings\<close>

lemma show_nat_times_10: "0 < m \<Longrightarrow> show_nat (m * 10) = show_nat m @ ''0''"
  by (subst show_nat.simps) (simp add: digit_char_def)

lemma strip_zeros_show:
  "m \<noteq> 0 \<Longrightarrow> strip_zeros m e = (s, e') \<Longrightarrow>
   e \<le> e' \<and> s \<noteq> 0 \<and> show_nat m = show_nat s @ replicate (nat (e' - e)) (CHR ''0'')"
proof (induction m e rule: strip_zeros.induct)
  case (1 m e)
  show ?case
  proof (cases "m mod 10 = 0")
    case True
    have d: "m div 10 \<noteq> 0" using True "1.prems"(1) by auto
    have st: "strip_zeros (m div 10) (e + 1) = (s, e')"
      using "1.prems" True by (subst (asm) strip_zeros.simps) simp
    have ih: "e + 1 \<le> e' \<and> s \<noteq> 0
              \<and> show_nat (m div 10) = show_nat s @ replicate (nat (e' - (e + 1))) (CHR ''0'')"
      using "1.IH"[OF _ d st] "1.prems"(1) True by simp
    have m: "m = (m div 10) * 10" using True by auto
    have "show_nat m = show_nat (m div 10) @ ''0''"
      using show_nat_times_10[of "m div 10"] d m by simp
    also have "\<dots> = show_nat s @ replicate (Suc (nat (e' - (e + 1)))) (CHR ''0'')"
      using ih by (simp add: replicate_append_same)
    finally have "show_nat m = show_nat s @ replicate (Suc (nat (e' - (e + 1)))) (CHR ''0'')" .
    moreover have "Suc (nat (e' - (e + 1))) = nat (e' - e)" using ih by linarith
    ultimately show ?thesis using ih by simp
  next
    case False
    then have "s = m \<and> e' = e"
      using "1.prems" by (subst (asm) strip_zeros.simps) simp
    then show ?thesis using "1.prems"(1) by simp
  qed
qed

lemma length_show_nat: "0 < k \<Longrightarrow> n < 10 ^ k \<Longrightarrow> length (show_nat n) \<le> k"
proof (induction k arbitrary: n)
  case 0
  then show ?case by simp
next
  case (Suc k)
  show ?case
  proof (cases "n < 10")
    case True
    then show ?thesis by (simp add: show_nat_small)
  next
    case False
    then have k: "0 < k" using Suc.prems(2) by (cases k) auto
    have "n div 10 < 10 ^ k" using Suc.prems(2) by (simp add: less_mult_imp_div_less)
    then show ?thesis using Suc.IH[OF k] False by (simp add: show_nat_large)
  qed
qed

text \<open>A non-negative integer below \<open>10^21\<close> prints as its decimal numeral.\<close>

lemma integer_to_string:
  assumes "n < 10 ^ 21"
  shows "number_to_string (integer_number n) = show_nat n"
proof (cases "n = 0")
  case True
  then show ?thesis by (simp add: integer_number_def show_nat_small digit_char_def)
next
  case False
  obtain s e' where st: "strip_zeros n 0 = (s, e')" by (cases "strip_zeros n 0")
  from strip_zeros_show[OF False st]
  have e: "0 \<le> e'" and sh: "show_nat n = show_nat s @ replicate (nat e') (CHR ''0'')"
    by simp_all
  have "length (show_nat n) \<le> 21" using length_show_nat[OF _ assms] by simp
  then have "int (length (show_nat s)) + e' \<le> 21" using sh e by simp
  then show ?thesis
    using False e sh st
    by (simp add: integer_number_def positive_to_string_def digits_to_string_def)
qed

lemma getMilliseconds_less: "getMilliseconds d < 1000"
  by (simp add: getMilliseconds_def)

lemma milliseconds_to_string [simp]:
  "number_to_string (integer_number (getMilliseconds d)) = show_nat (getMilliseconds d)"
proof -
  have "getMilliseconds d < 10 ^ 21"
    using getMilliseconds_less[of d] by (simp add: less_trans)
  then show ?thesis by (simp add: integer_to_string)
qed

text \<open>
  The string of a finite Number other than zero: an optional minus sign, then a digit;
  no white space, no capital letter, and no \<open>x\<close>.
\<close>

lemma number_char_cases:
  "c \<in> set ''0123456789.e+-'' \<Longrightarrow>
   \<not> is_ws c \<and> to_lower_char c = c \<and> c \<noteq> CHR '' '' \<and> c \<noteq> CHR ''x'' \<and> c \<noteq> CHR ''X''"
  by (auto simp: is_ws_def to_lower_char_def is_upper_def)

lemma digit_number_char: "is_digit c \<Longrightarrow> c \<in> set ''0123456789.e+-''"
  by (auto simp: is_digit_def)

lemma show_nat_number_chars: "set (show_nat n) \<subseteq> set ''0123456789.e+-''"
proof
  fix c
  assume "c \<in> set (show_nat n)"
  then have "is_digit c" using show_nat_digits[of n] by (simp add: list_all_iff)
  then show "c \<in> set ''0123456789.e+-''" by (rule digit_number_char)
qed

lemma exponent_part_chars: "set (exponent_part n) \<subseteq> set ''0123456789.e+-''"
  using show_nat_number_chars[of "nat (abs (n - 1))"] by (auto simp: exponent_part_def)

lemma digits_to_string_chars:
  assumes "set ds \<subseteq> set ''0123456789.e+-''"
  shows "set (digits_to_string ds n) \<subseteq> set ''0123456789.e+-''"
proof -
  have t: "set (take j ds) \<subseteq> set ''0123456789.e+-''" for j
    using assms set_take_subset[of j ds] by blast
  have d: "set (drop j ds) \<subseteq> set ''0123456789.e+-''" for j
    using assms set_drop_subset[of j ds] by blast
  have r: "set (replicate j (CHR ''0'')) \<subseteq> set ''0123456789.e+-''" for j
    by auto
  show ?thesis
    using assms t d r exponent_part_chars[of n]
    by (simp add: digits_to_string_def Let_def)
qed

lemma digits_to_string_head:
  assumes "ds = c # cs"
  shows "\<exists>rest. digits_to_string ds n = c # rest \<or> digits_to_string ds n = CHR ''0'' # rest"
  using assms by (auto simp: digits_to_string_def Let_def take_Cons')

lemma positive_to_string_shape:
  "\<exists>c rest. positive_to_string m e = c # rest \<and> is_digit c
            \<and> set (c # rest) \<subseteq> set ''0123456789.e+-''"
proof -
  obtain s e' where st: "strip_zeros m e = (s, e')" by (cases "strip_zeros m e")
  let ?n = "int (length (show_nat s)) + e'"
  have p: "positive_to_string m e = digits_to_string (show_nat s) ?n"
    by (simp add: positive_to_string_def st)
  obtain c cs where ds: "show_nat s = c # cs"
    using show_nat_digits[of s] by (cases "show_nat s") auto
  then have c: "is_digit c" using show_nat_digits[of s] by simp
  obtain rest where h: "digits_to_string (show_nat s) ?n = c # rest
                        \<or> digits_to_string (show_nat s) ?n = CHR ''0'' # rest"
    using digits_to_string_head[OF ds] by blast
  have z: "is_digit (CHR ''0'')" by (simp add: is_digit_def)
  have "set (digits_to_string (show_nat s) ?n) \<subseteq> set ''0123456789.e+-''"
    by (rule digits_to_string_chars[OF show_nat_number_chars])
  then show ?thesis using p h c z by (metis)
qed

lemma parseInt_number_shape:
  assumes "is_digit c" and "set (c # rest) \<subseteq> set ''0123456789.e+-''"
  shows "\<not> parseInt_isNaN (Str (c # rest))" and "\<not> parseInt_isNaN (Str (CHR ''-'' # c # rest))"
proof -
  have n: "\<not> no_digits (c # rest)"
  proof (cases rest)
    case Nil
    then show ?thesis using assms(1) by simp
  next
    case (Cons x r)
    then have "x \<in> set ''0123456789.e+-''" using assms(2) by simp
    then show ?thesis using Cons assms(1) number_char_cases[of x] by simp
  qed
  have s: "c \<noteq> CHR ''+'' \<and> c \<noteq> CHR ''-''" using digit_not_sign[OF assms(1)] by simp
  show "\<not> parseInt_isNaN (Str (c # rest))"
    using n s assms(1) by (simp add: parseInt_isNaN_def strip_sign_def digit_not_ws)
  show "\<not> parseInt_isNaN (Str (CHR ''-'' # c # rest))"
    using n by (simp add: parseInt_isNaN_def strip_sign_def is_ws_def)
qed

lemma finite_number_token:
  "number_to_string (Finite neg m e) \<noteq> []
   \<and> set (number_to_string (Finite neg m e)) \<subseteq> set ''0123456789.e+-''
   \<and> \<not> parseInt_isNaN (Str (number_to_string (Finite neg m e)))"
proof (cases "m = 0")
  case True
  have "\<not> parseInt_isNaN (Str ''0'')"
    by (simp add: parseInt_isNaN_def strip_sign_def is_ws_def is_digit_def)
  then show ?thesis using True by simp
next
  case False
  obtain c rest where p: "positive_to_string m e = c # rest" "is_digit c"
      "set (c # rest) \<subseteq> set ''0123456789.e+-''"
    using positive_to_string_shape[of m e] by blast
  show ?thesis
    using False p parseInt_number_shape[OF p(2,3)] by (cases neg) simp_all
qed

section \<open>Text normalisation of a \<open>done\<close> command\<close>

lemma or_empty_simps [simp]: "or_empty None = []" "or_empty (Some x) = x"
  by (simp_all add: or_empty_def)

lemma text_value_simps [simp]: "text_value None = Undefined" "text_value (Some x) = Str x"
  by (simp_all add: text_value_def)

lemma toLowerCase_token: "\<forall>c\<in>set w. to_lower_char c = c \<Longrightarrow> toLowerCase w = w"
  by (simp add: toLowerCase_def map_idI)

lemma split_space_token: "\<forall>c\<in>set w. c \<noteq> CHR '' '' \<Longrightarrow> split_space w = [w]"
  by (induction w) simp_all

lemma ws_space: "\<not> is_ws c \<Longrightarrow> c \<noteq> CHR '' ''"
  by (auto simp: is_ws_def)

text \<open>
  A token: a word without white space that lower-casing leaves as it is.  \<open>done\<close> and
  a token are the utterance and its two words.
\<close>

lemma utterance_done_token:
  assumes "w \<noteq> []" and "\<forall>c\<in>set w. \<not> is_ws c \<and> to_lower_char c = c"
  shows "toLowerCase (trim (or_empty (Some (''done '' @ w)))) = ''done '' @ w"
proof -
  have l: "\<not> is_ws (last w)" using assms by simp
  have h: "\<not> is_ws (hd (''done '' @ w))" by (simp add: is_ws_def)
  have "trim (''done '' @ w) = ''done '' @ w"
    using assms(1) l h by (intro trim_id) simp_all
  moreover have "toLowerCase (''done '' @ w) = ''done '' @ w"
    using toLowerCase_token[of w] assms(2)
    by (simp add: toLowerCase_def to_lower_char_def is_upper_def)
  ultimately show ?thesis by simp
qed

lemma words_done_token:
  assumes "\<forall>c\<in>set w. \<not> is_ws c \<and> to_lower_char c = c"
  shows "split_space (''done '' @ w) = [''done'', w]"
  using split_space_token[of w] assms ws_space by simp

lemma dispatch_done_token:
  assumes "\<forall>c\<in>set w. \<not> is_ws c \<and> to_lower_char c = c"
  shows "dispatch e r (''done '' @ w) t
           = (if parseInt_isNaN (Str w) then reply usage_hint t
              else completeJob (adapter e) (Str w) t)"
  using words_done_token[OF assms] by (simp add: dispatch_def)

lemma on_turn_done_token:
  assumes "w \<noteq> []" and "\<forall>c\<in>set w. \<not> is_ws c \<and> to_lower_char c = c"
  shows "on_turn e (done_message r w) s =
     (let t1 = (if parseInt_isNaN (Str w) then reply usage_hint (new_turn s)
                else completeJob (adapter e) (Str w) (new_turn s))
      in if thrown t1 \<noteq> None then t1
         else (let dc = \<lparr>stack = stack_of (convs s (conv_key r)),
                         user = users (storage t1) (user_key r), out = sent t1\<rparr>;
                   dc1 = (if sent t1 = [] then continueDialog (Str (''done '' @ w)) dc else dc)
               in save_jobs (save_dialog r (convs s (conv_key r)) dc1 t1)))"
  using utterance_done_token[OF assms] dispatch_done_token[OF assms(2)]
  by (simp add: on_turn_def done_message_def message_def Let_def)

text \<open>A decimal id is a token that \<open>parseInt\<close> accepts.\<close>

lemma digits_token:
  "list_all is_digit w \<Longrightarrow> \<forall>c\<in>set w. \<not> is_ws c \<and> to_lower_char c = c"
  by (simp add: list_all_iff digit_not_ws digit_lower)

text \<open>A message turn whose command has replied: the dialog is not continued.\<close>

lemma on_turn_done_message:
  assumes "w \<noteq> []" "list_all is_digit w"
  shows "on_turn e (done_message r w) s =
     (let t1 = completeJob (adapter e) (Str w) (new_turn s)
      in if thrown t1 \<noteq> None then t1
         else (let dc = \<lparr>stack = stack_of (convs s (conv_key r)),
                         user = users (storage t1) (user_key r), out = sent t1\<rparr>;
                   dc1 = (if sent t1 = [] then continueDialog (Str (''done '' @ w)) dc else dc)
               in save_jobs (save_dialog r (convs s (conv_key r)) dc1 t1)))"
  using on_turn_done_token[OF assms(1) digits_token[OF assms(2)], of e r s]
    parseInt_digits[OF assms]
  by simp

lemma completeJob_unknown:
  "map_of (jobs_c t) (to_str v) = None \<Longrightarrow>
   completeJob ad v t = reply (''Sorry no job with ID '' @ to_str v @ ''.'') t"
  by (simp add: completeJob_def)

lemma stack_of_simps [simp]: "stack_of None = []" "stack_of (Some st) = st"
  by (simp_all add: stack_of_def)

lemma save_conv_fields [simp]:
  "jobs (save_conv r l st s) = jobs s"
  "users (save_conv r l st s) = users s"
  "convs (save_conv r l st s) = (if l = Some st then convs s else (convs s)(conv_key r := Some st))"
  by (simp_all add: save_conv_def)

lemma turn_fields_save [simp]:
  "sent (save_jobs t) = sent t" "resumed (save_jobs t) = resumed t"
  "notified (save_jobs t) = notified t" "thrown (save_jobs t) = thrown t"
  "jobs_c (save_jobs t) = jobs_c t"
  "jobs (storage (save_jobs t)) = jobs_c t"
  "users (storage (save_jobs t)) = users (storage t)"
  "convs (storage (save_jobs t)) = convs (storage t)"
  "sent (save_dialog r l dc t) = out dc" "resumed (save_dialog r l dc t) = resumed t"
  "notified (save_dialog r l dc t) = notified t" "thrown (save_dialog r l dc t) = thrown t"
  "jobs_c (save_dialog r l dc t) = jobs_c t"
  "users (storage (save_dialog r l dc t)) = (users (storage t))(user_key r := user dc)"
  "convs (storage (save_dialog r l dc t))
     = (if l = Some (stack dc) then convs (storage t) else (convs (storage t))(conv_key r := Some (stack dc)))"
  by (simp_all add: save_jobs_def save_dialog_def)

lemma turn_fields_reply [simp]:
  "sent (reply m t) = sent t @ [m]" "resumed (reply m t) = resumed t"
  "notified (reply m t) = notified t" "thrown (reply m t) = thrown t"
  "jobs_c (reply m t) = jobs_c t" "storage (reply m t) = storage t"
  by (simp_all add: reply_def)

lemma turn_fields_new [simp]:
  "sent (new_turn s) = []" "resumed (new_turn s) = None"
  "notified (new_turn s) = []" "thrown (new_turn s) = None"
  "jobs_c (new_turn s) = jobs s" "storage (new_turn s) = s"
  by (simp_all add: new_turn_def)

section \<open>Completing a job that does not exist\<close>

text \<open>
  C7.  For every decimal id \<open>w\<close> with no record in the registry, the message
  \<open>done w\<close> is answered with exactly \<open>Sorry no job with ID w.\<close>; the registry, the user
  profiles and every dialog stack are as before, \<open>continueConversation\<close> is not called,
  nothing is sent to any other conversation, and nothing is thrown.
\<close>

theorem done_unknown_id:
  assumes "w \<noteq> []" and "list_all is_digit w" and "map_of (jobs s) w = None"
  shows "sent (on_turn e (done_message r w) s) = [''Sorry no job with ID '' @ w @ ''.'']
       \<and> jobs (storage (on_turn e (done_message r w) s)) = jobs s
       \<and> users (storage (on_turn e (done_message r w) s)) = users s
       \<and> dialog_stacks (storage (on_turn e (done_message r w) s)) = dialog_stacks s
       \<and> resumed (on_turn e (done_message r w) s) = None
       \<and> notified (on_turn e (done_message r w) s) = []
       \<and> thrown (on_turn e (done_message r w) s) = None"
proof -
  have c: "completeJob (adapter e) (Str w) (new_turn s)
           = reply (''Sorry no job with ID '' @ w @ ''.'') (new_turn s)"
    using assms(3) completeJob_unknown[of "new_turn s" "Str w"] by simp
  show ?thesis
    unfolding on_turn_done_message[OF assms(1,2)] c
    by (auto simp: Let_def dialog_stacks_def fun_eq_iff)
qed

theorem done_unknown_id_witness:
  "''9999'' \<noteq> [] \<and> list_all is_digit ''9999'' \<and> map_of (jobs empty_store) ''9999'' = None
   \<and> sent (on_turn (reachable_at 0) (done_message alice ''9999'') empty_store)
       = [''Sorry no job with ID 9999.'']
   \<and> jobs (storage (on_turn (reachable_at 0) (done_message alice ''9999'') empty_store)) = []
   \<and> resumed (on_turn (reachable_at 0) (done_message alice ''9999'') empty_store) = None"
  using done_unknown_id[of "''9999''" empty_store "reachable_at 0" alice]
  by (simp add: is_digit_def empty_store_def)

section \<open>What each operation does to the turn\<close>

lemma notification_fields [simp]:
  "sent (notification v r t) = sent t"
  "resumed (notification v r t) = resumed t"
  "thrown (notification v r t) = thrown t"
  "jobs_c (notification v r t)
     = AList.map_entry (to_str v) (\<lambda>info. info\<lparr>completed := True\<rparr>) (jobs_c t)"
  "jobs (storage (notification v r t)) = jobs (storage t)"
  "users (storage (notification v r t)) = users (storage t)"
  by (simp_all add: notification_def Let_def)

lemma completeJob_completed:
  "map_of (jobs_c t) (to_str v) = Some info \<Longrightarrow> completed info \<Longrightarrow>
   completeJob ad v t = reply ''This job is already completed, please start a new job.'' t"
  by (simp add: completeJob_def)

lemma completeJob_unreachable:
  "map_of (jobs_c t) (to_str v) = Some info \<Longrightarrow> \<not> completed info \<Longrightarrow>
   completeJob Unreachable v t = t\<lparr>resumed := Some (reference info), thrown := Some ResumeFailed\<rparr>"
  by (simp add: completeJob_def continueConversation_def)

lemma completeJob_reachable:
  "map_of (jobs_c t) (to_str v) = Some info \<Longrightarrow> \<not> completed info \<Longrightarrow> thrown t = None \<Longrightarrow>
   completeJob Reachable v t
     = reply ''Job completed. Notification sent.''
         (notification v (reference info) (t\<lparr>resumed := Some (reference info)\<rparr>))"
  by (simp add: completeJob_def continueConversation_def)

lemma completeJob_jobs_c:
  "jobs_c (completeJob ad v t)
     = (case map_of (jobs_c t) (to_str v) of
          None \<Rightarrow> jobs_c t
        | Some info \<Rightarrow>
            if \<not> completed info \<and> ad = Reachable
            then AList.map_entry (to_str v) (\<lambda>info. info\<lparr>completed := True\<rparr>) (jobs_c t)
            else jobs_c t)"
  by (cases ad) (auto simp: completeJob_def continueConversation_def Let_def split: option.splits)

lemma completeJob_thrown_storage:
  "thrown t = None \<Longrightarrow> thrown (completeJob ad v t) \<noteq> None \<Longrightarrow>
   storage (completeJob ad v t) = storage t \<and> jobs_c (completeJob ad v t) = jobs_c t"
  by (cases ad) (auto simp: completeJob_def continueConversation_def Let_def split: option.splits if_splits)

lemma completeJob_responds:
  "thrown t = None \<Longrightarrow> thrown (completeJob ad v t) = None \<Longrightarrow> sent (completeJob ad v t) \<noteq> []"
  by (cases ad) (auto simp: completeJob_def continueConversation_def Let_def split: option.splits if_splits)

lemma createJob_fields [simp]:
  "storage (createJob d r t) = storage t"
  "resumed (createJob d r t) = resumed t"
  "notified (createJob d r t) = notified t"
  "thrown (createJob d r t) = thrown t"
  by (simp_all add: createJob_def Let_def)

lemma createJob_jobs_c:
  "jobs_c (createJob d r t)
     = (if map_of (jobs_c t) (show_nat (getMilliseconds d)) = None
        then AList.update (show_nat (getMilliseconds d)) \<lparr>completed = False, reference = r\<rparr> (jobs_c t)
        else jobs_c t)"
  by (auto simp: createJob_def Let_def isEmpty_def split: option.splits)

lemma createJob_sent:
  "sent (createJob d r t)
     = (if map_of (jobs_c t) (show_nat (getMilliseconds d)) = None
        then sent t @ [''Need to create new job ID: '' @ show_nat (getMilliseconds d),
                       ''Successful write to log.'']
        else sent t)"
  by (auto simp: createJob_def Let_def isEmpty_def split: option.splits)

lemma showJobs_fields [simp]:
  "storage (showJobs t) = storage t"
  "resumed (showJobs t) = resumed t"
  "notified (showJobs t) = notified t"
  "thrown (showJobs t) = thrown t"
  "jobs_c (showJobs t) = jobs_c t"
  "sent (showJobs t) \<noteq> sent t"
  by (simp_all add: showJobs_def)

text \<open>The registry after a command branch: untouched, one record added, or one completed.\<close>

lemma dispatch_jobs_c:
  "jobs_c (dispatch e r u t) = jobs_c t
   \<or> (map_of (jobs_c t) (show_nat (getMilliseconds (now e))) = None
      \<and> jobs_c (dispatch e r u t)
          = AList.update (show_nat (getMilliseconds (now e))) \<lparr>completed = False, reference = r\<rparr> (jobs_c t))
   \<or> (\<exists>k info. map_of (jobs_c t) k = Some info \<and> \<not> completed info
      \<and> jobs_c (dispatch e r u t) = AList.map_entry k (\<lambda>info. info\<lparr>completed := True\<rparr>) (jobs_c t))"
  by (auto simp: dispatch_def Let_def createJob_jobs_c completeJob_jobs_c split: option.splits)

lemma dispatch_thrown_storage:
  "thrown t = None \<Longrightarrow> thrown (dispatch e r u t) \<noteq> None \<Longrightarrow>
   storage (dispatch e r u t) = storage t \<and> jobs_c (dispatch e r u t) = jobs_c t"
  using completeJob_thrown_storage
  by (auto simp: dispatch_def Let_def split: if_splits)

lemma on_turn_thrown_storage:
  "thrown (on_turn e a s) \<noteq> None \<Longrightarrow> storage (on_turn e a s) = s"
proof (cases "kind a")
  case (Message input)
  assume th: "thrown (on_turn e a s) \<noteq> None"
  let ?t1 = "dispatch e (source a) (toLowerCase (trim (or_empty input))) (new_turn s)"
  show ?thesis
  proof (cases "thrown ?t1 = None")
    case True
    then show ?thesis using th Message by (simp add: on_turn_def Let_def)
  next
    case False
    then show ?thesis
      using Message dispatch_thrown_storage[of "new_turn s" e "source a"]
      by (simp add: on_turn_def Let_def)
  qed
next
  case (Event nm v)
  assume th: "thrown (on_turn e a s) \<noteq> None"
  then show ?thesis
    using Event completeJob_thrown_storage[of "new_turn s" "adapter e" v]
    by (auto simp: on_turn_def Let_def split: if_splits)
next
  case (ConversationUpdate ms)
  assume "thrown (on_turn e a s) \<noteq> None"
  then show ?thesis using ConversationUpdate
    by (auto simp: on_turn_def Let_def split: list.splits if_splits)
next
  case OtherActivity
  assume "thrown (on_turn e a s) \<noteq> None"
  then show ?thesis using OtherActivity by (simp add: on_turn_def)
qed

lemma on_turn_jobs:
  "jobs (storage (on_turn e a s)) = jobs s
   \<or> (map_of (jobs s) (show_nat (getMilliseconds (now e))) = None
      \<and> jobs (storage (on_turn e a s))
          = AList.update (show_nat (getMilliseconds (now e)))
              \<lparr>completed = False, reference = source a\<rparr> (jobs s))
   \<or> (\<exists>k info. map_of (jobs s) k = Some info \<and> \<not> completed info
      \<and> jobs (storage (on_turn e a s)) = AList.map_entry k (\<lambda>info. info\<lparr>completed := True\<rparr>) (jobs s))"
proof (cases "thrown (on_turn e a s) = None")
  case False
  then show ?thesis using on_turn_thrown_storage[of e a s] by simp
next
  case nt: True
  show ?thesis
  proof (cases "kind a")
    case (Message input)
    let ?t1 = "dispatch e (source a) (toLowerCase (trim (or_empty input))) (new_turn s)"
    have th1: "thrown ?t1 = None"
      using nt Message by (auto simp: on_turn_def Let_def split: if_splits)
    have "jobs (storage (on_turn e a s)) = jobs_c ?t1"
      using th1 Message by (simp add: on_turn_def Let_def)
    then show ?thesis
      using dispatch_jobs_c[of e "source a" "toLowerCase (trim (or_empty input))" "new_turn s"]
      by simp
  next
    case (Event nm v)
    have "jobs (storage (on_turn e a s)) = jobs s
          \<or> jobs (storage (on_turn e a s)) = jobs_c (completeJob (adapter e) v (new_turn s))"
      using nt Event by (auto simp: on_turn_def Let_def split: if_splits)
    then show ?thesis
      by (auto simp: completeJob_jobs_c split: option.splits if_splits)
  next
    case (ConversationUpdate ms)
    then show ?thesis by (auto simp: on_turn_def Let_def split: list.splits)
  next
    case OtherActivity
    then show ?thesis by (simp add: on_turn_def)
  qed
qed

section \<open>A completed record stays completed\<close>

lemma completed_stays:
  assumes "map_of (jobs s) k = Some info" and "completed info"
  shows "map_of (jobs (storage (on_turn e a s))) k = Some info"
  using on_turn_jobs[of e a s] assms
  by (auto simp: update_conv' map_of_map_entry)

lemma completed_stays_run:
  assumes "map_of (jobs s) k = Some info" and "completed info"
  shows "map_of (jobs (run_turns s turns)) k = Some info"
  using assms
proof (induction turns arbitrary: s)
  case Nil
  then show ?case by simp
next
  case (Cons p turns)
  obtain e a where p: "p = (e, a)" by (cases p)
  show ?case
    unfolding p run_turns.simps
    by (rule Cons.IH[OF completed_stays[OF Cons.prems]]) (rule Cons.prems(2))
qed

lemma done_on_completed:
  assumes "w \<noteq> []" and "list_all is_digit w"
    and "map_of (jobs s) w = Some info" and "completed info"
  shows "sent (on_turn e (done_message r w) s)
           = [''This job is already completed, please start a new job.'']
       \<and> resumed (on_turn e (done_message r w) s) = None
       \<and> notified (on_turn e (done_message r w) s) = []
       \<and> thrown (on_turn e (done_message r w) s) = None
       \<and> jobs (storage (on_turn e (done_message r w) s)) = jobs s
       \<and> users (storage (on_turn e (done_message r w) s)) = users s
       \<and> dialog_stacks (storage (on_turn e (done_message r w) s)) = dialog_stacks s"
proof -
  have c: "completeJob (adapter e) (Str w) (new_turn s)
           = reply ''This job is already completed, please start a new job.'' (new_turn s)"
    using assms(3,4) completeJob_completed[of "new_turn s" "Str w" info] by simp
  show ?thesis
    unfolding on_turn_done_message[OF assms(1,2)] c
    by (auto simp: Let_def dialog_stacks_def fun_eq_iff)
qed

lemma event_on_completed:
  assumes "w \<noteq> []" and "list_all is_digit w"
    and "map_of (jobs s) w = Some info" and "completed info"
  shows "sent (on_turn e (job_completed_event r (Str w)) s)
           = [''This job is already completed, please start a new job.'']
       \<and> resumed (on_turn e (job_completed_event r (Str w)) s) = None
       \<and> notified (on_turn e (job_completed_event r (Str w)) s) = []
       \<and> thrown (on_turn e (job_completed_event r (Str w)) s) = None
       \<and> storage (on_turn e (job_completed_event r (Str w)) s) = s"
proof -
  have c: "completeJob (adapter e) (Str w) (new_turn s)
           = reply ''This job is already completed, please start a new job.'' (new_turn s)"
    using assms(3,4) completeJob_completed[of "new_turn s" "Str w" info] by simp
  show ?thesis
    using parseInt_digits[OF assms(1,2)]
    by (simp add: on_turn_def job_completed_event_def c save_jobs_def)
qed

lemma first_done:
  assumes "w \<noteq> []" and "list_all is_digit w"
    and "map_of (jobs s) w = Some info" and "\<not> completed info" and "adapter e = Reachable"
  shows "sent (on_turn e (done_message r w) s) = [''Job completed. Notification sent.'']
       \<and> resumed (on_turn e (done_message r w) s) = Some (reference info)
       \<and> thrown (on_turn e (done_message r w) s) = None
       \<and> jobs (storage (on_turn e (done_message r w) s))
           = AList.map_entry w (\<lambda>info. info\<lparr>completed := True\<rparr>) (jobs s)
       \<and> map_of (jobs (storage (on_turn e (done_message r w) s))) w
           = Some (info\<lparr>completed := True\<rparr>)"
proof -
  have c: "completeJob (adapter e) (Str w) (new_turn s)
           = reply ''Job completed. Notification sent.''
               (notification (Str w) (reference info) ((new_turn s)\<lparr>resumed := Some (reference info)\<rparr>))"
    using assms(3,4,5) completeJob_reachable[of "new_turn s" "Str w" info] by simp
  show ?thesis
    unfolding on_turn_done_message[OF assms(1,2)] c
    using assms(3) by (simp add: Let_def map_of_map_entry)
qed

text \<open>
  C1.  Once a \<open>done w\<close> has completed an existing job (the resume succeeded), the record
  of \<open>w\<close> is completed after any further turns, and every later \<open>done w\<close> (or
  \<open>jobCompleted\<close> event with value \<open>w\<close>) is answered with
  \<open>This job is already completed, please start a new job.\<close>, calls
  \<open>continueConversation\<close> not at all, sends nothing to the job's conversation and leaves
  the registry as it is.  The flag therefore goes from false to true once.
\<close>

theorem completed_once:
  assumes "w \<noteq> []" and "list_all is_digit w"
    and "map_of (jobs s) w = Some info" and "\<not> completed info" and "adapter e = Reachable"
  shows "resumed (on_turn e (done_message r w) s) = Some (reference info)
       \<and> (\<forall>turns e' r'.
            (let s2 = run_turns (storage (on_turn e (done_message r w) s)) turns
             in map_of (jobs s2) w = Some (info\<lparr>completed := True\<rparr>)
              \<and> sent (on_turn e' (done_message r' w) s2)
                  = [''This job is already completed, please start a new job.'']
              \<and> resumed (on_turn e' (done_message r' w) s2) = None
              \<and> notified (on_turn e' (done_message r' w) s2) = []
              \<and> thrown (on_turn e' (done_message r' w) s2) = None
              \<and> jobs (storage (on_turn e' (done_message r' w) s2)) = jobs s2
              \<and> sent (on_turn e' (job_completed_event r' (Str w)) s2)
                  = [''This job is already completed, please start a new job.'']
              \<and> resumed (on_turn e' (job_completed_event r' (Str w)) s2) = None
              \<and> notified (on_turn e' (job_completed_event r' (Str w)) s2) = []
              \<and> storage (on_turn e' (job_completed_event r' (Str w)) s2) = s2))"
proof -
  let ?s1 = "storage (on_turn e (done_message r w) s)"
  let ?i = "info\<lparr>completed := True\<rparr>"
  note f = first_done[OF assms, of r]
  have c: "completed ?i" by simp
  have stays: "map_of (jobs (run_turns ?s1 turns)) w = Some ?i" for turns
    using completed_stays_run[of ?s1 w ?i turns] f c by blast
  show ?thesis
    using f stays done_on_completed[OF assms(1,2) stays c]
      event_on_completed[OF assms(1,2) stays c]
    by (simp add: Let_def)
qed

section \<open>The worked examples\<close>

lemma one_job_store_jobs:
  "jobs one_job_store = [(''5'', \<lparr>completed = False, reference = alice\<rparr>)]"
  by (simp add: one_job_store_def on_turn_def message_def reachable_at_def empty_store_def
      or_empty_def trim_def is_ws_def toLowerCase_def to_lower_char_def is_upper_def
      dispatch_def createJob_jobs_c getMilliseconds_def show_nat.simps digit_char_def Let_def)

lemma digits_5: "''5'' \<noteq> []" "list_all is_digit ''5''"
  by (simp_all add: is_digit_def)

lemma job_5: "map_of (jobs one_job_store) ''5'' = Some \<lparr>completed = False, reference = alice\<rparr>"
  by (simp add: one_job_store_jobs)

theorem completed_once_witness:
  "''5'' \<noteq> [] \<and> list_all is_digit ''5''
   \<and> map_of (jobs one_job_store) ''5'' = Some \<lparr>completed = False, reference = alice\<rparr>
   \<and> \<not> completed \<lparr>completed = False, reference = alice\<rparr>
   \<and> adapter (reachable_at 7) = Reachable
   \<and> resumed (on_turn (reachable_at 7) (done_message bob ''5'') one_job_store) = Some alice
   \<and> sent (on_turn (reachable_at 9) (done_message bob ''5'')
        (run_turns (storage (on_turn (reachable_at 7) (done_message bob ''5'') one_job_store))
           [(reachable_at 8005, message alice ''run'')]))
       = [''This job is already completed, please start a new job.'']
   \<and> resumed (on_turn (reachable_at 9) (done_message bob ''5'')
        (run_turns (storage (on_turn (reachable_at 7) (done_message bob ''5'') one_job_store))
           [(reachable_at 8005, message alice ''run'')])) = None"
proof -
  note h1 = digits_5(1) and h2 = digits_5(2) and h3 = job_5
  have h4: "\<not> completed \<lparr>completed = False, reference = alice\<rparr>" by simp
  have h5: "adapter (reachable_at 7) = Reachable" by (simp add: reachable_at_def)
  note t = completed_once[OF h1 h2 h3 h4 h5, of bob]
  note u = t[THEN conjunct2, rule_format, of "[(reachable_at 8005, message alice ''run'')]"
      "reachable_at 9" bob]
  show ?thesis
    using h1 h2 h3 h5 t[THEN conjunct1] u by (simp add: Let_def)
qed

section \<open>A resume that fails\<close>

lemma done_unreachable:
  assumes "w \<noteq> []" and "list_all is_digit w"
    and "map_of (jobs s) w = Some info" and "\<not> completed info" and "adapter e = Unreachable"
  shows "on_turn e (done_message r w) s
           = (new_turn s)\<lparr>resumed := Some (reference info), thrown := Some ResumeFailed\<rparr>"
    and "on_turn e (job_completed_event r (Str w)) s
           = (new_turn s)\<lparr>resumed := Some (reference info), thrown := Some ResumeFailed\<rparr>"
proof -
  have c: "completeJob (adapter e) (Str w) (new_turn s)
           = (new_turn s)\<lparr>resumed := Some (reference info), thrown := Some ResumeFailed\<rparr>"
    using assms(3,4,5) completeJob_unreachable[of "new_turn s" "Str w" info] by simp
  show "on_turn e (job_completed_event r (Str w)) s
            = (new_turn s)\<lparr>resumed := Some (reference info), thrown := Some ResumeFailed\<rparr>"
    using parseInt_digits[OF assms(1,2)]
    by (simp add: on_turn_def job_completed_event_def c)
  show "on_turn e (done_message r w) s
            = (new_turn s)\<lparr>resumed := Some (reference info), thrown := Some ResumeFailed\<rparr>"
    unfolding on_turn_done_message[OF assms(1,2)] c by (simp add: Let_def)
qed

text \<open>
  C2, as the claim states it, fails: Bob completes Alice's job 5 while her conversation
  cannot be reached.  The turn ends with the error uncaught, nothing has been sent to
  Bob, and the stored record of job 5 is still not completed.
\<close>

theorem resume_failure_counterexample:
  "thrown (on_turn (unreachable_at 7) (done_message bob ''5'') one_job_store) = Some ResumeFailed
   \<and> sent (on_turn (unreachable_at 7) (done_message bob ''5'') one_job_store) = []
   \<and> map_of (jobs (storage (on_turn (unreachable_at 7) (done_message bob ''5'') one_job_store))) ''5''
       = Some \<lparr>completed = False, reference = alice\<rparr>"
proof -
  have "adapter (unreachable_at 7) = Unreachable" by (simp add: unreachable_at_def)
  from done_unreachable(1)[OF digits_5 job_5 _ this, of bob]
  show ?thesis by (simp add: job_5)
qed

text \<open>
  C2, amended.  When the resume fails, \<open>completeJob\<close> and \<open>onTurn\<close> do not catch the
  error: the turn ends with it, no activity has been sent to the caller or to the job's
  conversation, and the storage is exactly as before the turn, so the record is still
  not completed.  The same holds for the \<open>jobCompleted\<close> event.
\<close>

theorem resume_failure_propagates:
  assumes "w \<noteq> []" and "list_all is_digit w"
    and "map_of (jobs s) w = Some info" and "\<not> completed info" and "adapter e = Unreachable"
  shows "thrown (on_turn e (done_message r w) s) = Some ResumeFailed
       \<and> resumed (on_turn e (done_message r w) s) = Some (reference info)
       \<and> sent (on_turn e (done_message r w) s) = []
       \<and> notified (on_turn e (done_message r w) s) = []
       \<and> storage (on_turn e (done_message r w) s) = s
       \<and> on_turn e (job_completed_event r (Str w)) s = on_turn e (done_message r w) s"
  unfolding done_unreachable[OF assms] by simp

theorem resume_failure_propagates_witness:
  "''5'' \<noteq> [] \<and> list_all is_digit ''5''
   \<and> map_of (jobs one_job_store) ''5'' = Some \<lparr>completed = False, reference = alice\<rparr>
   \<and> \<not> completed \<lparr>completed = False, reference = alice\<rparr>
   \<and> adapter (unreachable_at 7) = Unreachable
   \<and> thrown (on_turn (unreachable_at 7) (done_message bob ''5'') one_job_store) = Some ResumeFailed
   \<and> sent (on_turn (unreachable_at 7) (done_message bob ''5'') one_job_store) = []
   \<and> storage (on_turn (unreachable_at 7) (done_message bob ''5'') one_job_store) = one_job_store"
proof -
  note h1 = digits_5(1) and h2 = digits_5(2) and h3 = job_5
  have h4: "\<not> completed \<lparr>completed = False, reference = alice\<rparr>" by simp
  have h5: "adapter (unreachable_at 7) = Unreachable" by (simp add: unreachable_at_def)
  show ?thesis
    using h1 h2 h3 h5 resume_failure_propagates[OF h1 h2 h3 h4 h5, of bob] by simp
qed

section \<open>Messages that no command answers\<close>

lemma on_turn_message:
  "on_turn e \<lparr>source = r, kind = Message input\<rparr> s =
     (let t1 = dispatch e r (utterance_of input) (new_turn s)
      in if thrown t1 \<noteq> None then t1
         else (let dc = \<lparr>stack = stack_of (convs s (conv_key r)),
                         user = users (storage t1) (user_key r), out = sent t1\<rparr>;
                   dc1 = (if sent t1 = [] then continueDialog (text_value input) dc else dc)
               in save_jobs (save_dialog r (convs s (conv_key r)) dc1 t1)))"
  by (simp add: on_turn_def utterance_of_def Let_def)

text \<open>When the command branch leaves the turn as it was, the turn is a dialog turn.\<close>

lemma on_turn_fall_through:
  assumes "dispatch e r (utterance_of input) (new_turn s) = new_turn s"
  shows "on_turn e \<lparr>source = r, kind = Message input\<rparr> s
         = save_jobs (save_dialog r (convs s (conv_key r))
             (continueDialog (text_value input) (dialog_context r s)) (new_turn s))"
  unfolding on_turn_message assms by (simp add: Let_def dialog_context_def)

lemma utterance_run [simp]: "utterance_of (Some ''run'') = ''run''"
  by (simp add: utterance_of_def or_empty_def trim_def is_ws_def toLowerCase_def
      to_lower_char_def is_upper_def)

lemma dispatch_run: "dispatch e r ''run'' t = createJob (now e) r t"
  by (simp add: dispatch_def)

lemma createJob_existing:
  "map_of (jobs_c t) (show_nat (getMilliseconds d)) \<noteq> None \<Longrightarrow> createJob d r t = t"
  by (auto simp: createJob_def isEmpty_def Let_def split: option.splits)

lemma run_taken_falls_through:
  assumes "utterance_of input = ''run''"
    and "map_of (jobs s) (show_nat (getMilliseconds (now e))) \<noteq> None"
  shows "on_turn e \<lparr>source = r, kind = Message input\<rparr> s
         = save_jobs (save_dialog r (convs s (conv_key r))
             (continueDialog (text_value input) (dialog_context r s)) (new_turn s))"
proof (rule on_turn_fall_through)
  show "dispatch e r (utterance_of input) (new_turn s) = new_turn s"
    using assms(2) by (simp add: assms(1) dispatch_run createJob_existing)
qed

lemma continueDialog_empty: "stack c = [] \<Longrightarrow> continueDialog v c = c"
  by (simp add: continueDialog.simps)

lemma one_job_store_convs: "convs one_job_store (conv_key bob) = None"
  by (simp add: one_job_store_def on_turn_message message_def reachable_at_def empty_store_def
      dispatch_run createJob_sent createJob_jobs_c getMilliseconds_def show_nat.simps digit_char_def
      Let_def alice_def bob_def conv_key_def)

section \<open>A run command whose id is taken\<close>

text \<open>
  C3, as the claim states it, fails: Bob says \<open>run\<close> at millisecond 5 while job 5 exists.
  The registry is unchanged, but no reply at all is sent: there is no duplicate notice.
\<close>

theorem run_duplicate_counterexample:
  "sent (on_turn (reachable_at 77005) (message bob ''run'') one_job_store) = []
   \<and> jobs (storage (on_turn (reachable_at 77005) (message bob ''run'') one_job_store))
       = jobs one_job_store"
proof -
  have k: "show_nat (getMilliseconds (now (reachable_at 77005))) = ''5''"
    by (simp add: reachable_at_def getMilliseconds_def show_nat.simps digit_char_def)
  have "map_of (jobs one_job_store) (show_nat (getMilliseconds (now (reachable_at 77005)))) \<noteq> None"
    unfolding k by (simp add: job_5)
  from run_taken_falls_through[OF utterance_run this, of bob]
  show ?thesis
    by (simp add: message_def dialog_context_def one_job_store_convs continueDialog_empty)
qed

text \<open>
  C3, amended.  A \<open>run\<close> whose id already has a record creates nothing and sends nothing
  from \<open>createJob\<close>: the registry is unchanged, \<open>continueConversation\<close> is not called, and
  because the turn has not responded the text goes on to the dialog of the conversation,
  whose output is the whole reply.
\<close>

theorem run_with_taken_id:
  assumes "utterance_of input = ''run''"
    and "map_of (jobs s) (show_nat (getMilliseconds (now e))) \<noteq> None"
  shows "jobs (storage (on_turn e \<lparr>source = r, kind = Message input\<rparr> s)) = jobs s
       \<and> sent (on_turn e \<lparr>source = r, kind = Message input\<rparr> s)
           = out (continueDialog (text_value input) (dialog_context r s))
       \<and> resumed (on_turn e \<lparr>source = r, kind = Message input\<rparr> s) = None
       \<and> notified (on_turn e \<lparr>source = r, kind = Message input\<rparr> s) = []
       \<and> thrown (on_turn e \<lparr>source = r, kind = Message input\<rparr> s) = None"
  unfolding run_taken_falls_through[OF assms] by simp

theorem run_with_taken_id_witness:
  "utterance_of (Some ''run'') = ''run''
   \<and> map_of (jobs one_job_store) (show_nat (getMilliseconds (now (reachable_at 77005)))) =
        Some \<lparr>completed = False, reference = alice\<rparr>
   \<and> jobs (storage (on_turn (reachable_at 77005) \<lparr>source = bob, kind = Message (Some ''run'')\<rparr> one_job_store))
       = [(''5'', \<lparr>completed = False, reference = alice\<rparr>)]
   \<and> sent (on_turn (reachable_at 77005) \<lparr>source = bob, kind = Message (Some ''run'')\<rparr> one_job_store) = []"
proof -
  have k: "show_nat (getMilliseconds (now (reachable_at 77005))) = ''5''"
    by (simp add: reachable_at_def getMilliseconds_def show_nat.simps digit_char_def)
  have h: "map_of (jobs one_job_store) (show_nat (getMilliseconds (now (reachable_at 77005)))) \<noteq> None"
    unfolding k by (simp add: job_5)
  from run_with_taken_id[OF utterance_run h, of bob]
  show ?thesis
    by (simp add: k job_5 one_job_store_jobs dialog_context_def one_job_store_convs continueDialog_empty)
qed

section \<open>Job ids\<close>

lemma update_absent: "map_of al k = None \<Longrightarrow> AList.update k v al = al @ [(k, v)]"
  by (induction al) (auto split: if_splits)

lemma on_turn_run:
  "on_turn e (message r ''run'') s
   = (let t1 = createJob (now e) r (new_turn s)
      in save_jobs (save_dialog r (convs s (conv_key r))
           (if sent t1 = [] then continueDialog (Str ''run'') (dialog_context r s)
            else \<lparr>stack = stack_of (convs s (conv_key r)), user = users s (user_key r),
                  out = sent t1\<rparr>) t1))"
  by (simp add: message_def on_turn_message dispatch_run Let_def dialog_context_def)

lemma on_turn_run_jobs:
  "jobs (storage (on_turn e (message r ''run'') s))
   = (if map_of (jobs s) (show_nat (getMilliseconds (now e))) = None
      then jobs s @ [(show_nat (getMilliseconds (now e)), \<lparr>completed = False, reference = r\<rparr>)]
      else jobs s)"
  by (simp add: on_turn_run Let_def createJob_jobs_c update_absent)

text \<open>The keys of the registry are distinct and are numerals of milliseconds.\<close>

lemma keys_on_turn:
  assumes "distinct (map fst (jobs s))"
    and "fst ` set (jobs s) \<subseteq> show_nat ` {..<1000}"
  shows "distinct (map fst (jobs (storage (on_turn e a s))))
       \<and> fst ` set (jobs (storage (on_turn e a s))) \<subseteq> show_nat ` {..<1000}"
  using on_turn_jobs[of e a s]
proof (elim disjE conjE exE)
  assume "jobs (storage (on_turn e a s)) = jobs s"
  then show ?thesis using assms by simp
next
  assume u: "jobs (storage (on_turn e a s))
      = AList.update (show_nat (getMilliseconds (now e)))
          \<lparr>completed = False, reference = source a\<rparr> (jobs s)"
  have "show_nat (getMilliseconds (now e)) \<in> show_nat ` {..<1000}"
    using getMilliseconds_less by blast
  then show ?thesis
    unfolding u using assms by (simp add: distinct_update dom_update)
next
  fix k info
  assume m: "jobs (storage (on_turn e a s))
      = AList.map_entry k (\<lambda>info. info\<lparr>completed := True\<rparr>) (jobs s)"
  show ?thesis
    unfolding m using assms by (simp add: distinct_map_entry dom_map_entry)
qed

lemma keys_run_turns:
  assumes "distinct (map fst (jobs s))"
    and "fst ` set (jobs s) \<subseteq> show_nat ` {..<1000}"
  shows "distinct (map fst (jobs (run_turns s turns)))
       \<and> fst ` set (jobs (run_turns s turns)) \<subseteq> show_nat ` {..<1000}"
  using assms
proof (induction turns arbitrary: s)
  case Nil
  then show ?case by simp
next
  case (Cons p turns)
  obtain e a where p: "p = (e, a)" by (cases p)
  show ?case
    unfolding p run_turns.simps
    using keys_on_turn[OF Cons.prems, of e a] Cons.IH by blast
qed

lemma keys_bound:
  assumes "distinct (map fst js)" and "fst ` set js \<subseteq> show_nat ` {..<(1000::nat)}"
  shows "length js \<le> 1000"
proof -
  have "length js = card (set (map fst js))"
    using assms(1) distinct_card[of "map fst js"] by simp
  also have "\<dots> \<le> card (show_nat ` {..<(1000::nat)})"
    using assms(2) by (intro card_mono) auto
  also have "\<dots> \<le> card {..<(1000::nat)}"
    by (rule card_image_le) simp
  finally show ?thesis by simp
qed

lemma run_twice_same_ms:
  assumes "getMilliseconds (now e1) = getMilliseconds (now e2)"
  shows "jobs (run_turns s [(e1, message r1 ''run''), (e2, message r2 ''run'')])
         = jobs (run_turns s [(e1, message r1 ''run'')])"
proof -
  let ?s1 = "storage (on_turn e1 (message r1 ''run'') s)"
  have "map_of (jobs ?s1) (show_nat (getMilliseconds (now e1))) \<noteq> None"
    by (auto simp: on_turn_run_jobs map_add_def)
  then show ?thesis
    by (simp add: on_turn_run_jobs[of e2 r2 ?s1] assms)
qed

text \<open>
  C10.  The id \<open>createJob\<close> generates is the numeral of the clock's millisecond
  component, which is below 1000: \<open>createJob\<close> either leaves the registry as it is or
  appends one record under that key.  Hence, starting from the empty storage, the
  registry never holds more than 1000 records, its keys are distinct and are numerals of
  numbers below 1000; and of two \<open>run\<close> commands with the same millisecond component the
  second creates no record.
\<close>

theorem job_ids_are_milliseconds:
  "getMilliseconds d < 1000
   \<and> (jobs_c (createJob d r t) = jobs_c t
      \<or> jobs_c (createJob d r t)
          = jobs_c t @ [(show_nat (getMilliseconds d), \<lparr>completed = False, reference = r\<rparr>)])
   \<and> (\<forall>turns. length (jobs (run_turns empty_store turns)) \<le> 1000
          \<and> distinct (map fst (jobs (run_turns empty_store turns)))
          \<and> fst ` set (jobs (run_turns empty_store turns)) \<subseteq> show_nat ` {..<1000})
   \<and> (\<forall>s e1 e2 r1 r2. getMilliseconds (now e1) = getMilliseconds (now e2) \<longrightarrow>
          jobs (run_turns s [(e1, message r1 ''run''), (e2, message r2 ''run'')])
          = jobs (run_turns s [(e1, message r1 ''run'')]))"
proof -
  have e: "distinct (map fst (jobs empty_store))"
    "fst ` set (jobs empty_store) \<subseteq> show_nat ` {..<1000}"
    by (simp_all add: empty_store_def)
  have 1: "jobs_c (createJob d r t) = jobs_c t
      \<or> jobs_c (createJob d r t)
          = jobs_c t @ [(show_nat (getMilliseconds d), \<lparr>completed = False, reference = r\<rparr>)]"
    by (simp add: createJob_jobs_c update_absent)
  have 2: "length (jobs (run_turns empty_store turns)) \<le> 1000
          \<and> distinct (map fst (jobs (run_turns empty_store turns)))
          \<and> fst ` set (jobs (run_turns empty_store turns)) \<subseteq> show_nat ` {..<1000}" for turns
    using keys_run_turns[OF e, of turns] keys_bound by blast
  show ?thesis
    using getMilliseconds_less 1 2 run_twice_same_ms by blast
qed

theorem job_ids_are_milliseconds_witness:
  "getMilliseconds (now (reachable_at 12005)) = getMilliseconds (now (reachable_at 77005))
   \<and> jobs (run_turns empty_store
        [(reachable_at 12005, message alice ''run''), (reachable_at 77005, message bob ''run'')])
       = [(''5'', \<lparr>completed = False, reference = alice\<rparr>)]"
proof -
  have h: "getMilliseconds (now (reachable_at 12005)) = getMilliseconds (now (reachable_at 77005))"
    by (simp add: getMilliseconds_def reachable_at_def)
  have "jobs (run_turns empty_store [(reachable_at 12005, message alice ''run'')])
        = [(''5'', \<lparr>completed = False, reference = alice\<rparr>)]"
    using one_job_store_jobs by (simp add: one_job_store_def)
  with job_ids_are_milliseconds[THEN conjunct2, THEN conjunct2, THEN conjunct2, rule_format, OF h,
      of empty_store alice bob] h
  show ?thesis by simp
qed

section \<open>The job table\<close>

lemma length_object_entries: "length (object_entries js) = length js"
  by (simp add: object_entries_def sum_length_filter_compl)

lemma set_object_entries: "set (object_entries js) = set js"
  by (auto simp: object_entries_def)

lemma insort_key_map:
  assumes "\<And>y. h (g y) = h y"
  shows "insort_key h (g x) (map g xs) = map g (insort_key h x xs)"
  by (induction xs) (simp_all add: assms)

lemma sort_key_map:
  assumes "\<And>y. h (g y) = h y"
  shows "sort_key h (map g xs) = map g (sort_key h xs)"
  by (induction xs) (simp_all add: insort_key_map[of h g, OF assms])

lemma object_entries_map:
  assumes "\<And>p. fst (g p) = fst p"
  shows "object_entries (map g js) = map g (object_entries js)"
proof -
  have 1: "filter (\<lambda>p. is_array_index (fst p)) (map g js)
           = map g (filter (\<lambda>p. is_array_index (fst p)) js)"
    by (simp add: filter_map o_def assms)
  have 2: "filter (\<lambda>p. \<not> is_array_index (fst p)) (map g js)
           = map g (filter (\<lambda>p. \<not> is_array_index (fst p)) js)"
    by (simp add: filter_map o_def assms)
  show ?thesis
    unfolding object_entries_def 1 2
    by (simp add: sort_key_map[of "\<lambda>p. digits_val (fst p)" g] assms)
qed

lemma map_entry_as_map:
  "distinct (map fst js) \<Longrightarrow>
   AList.map_entry k f js = map (\<lambda>p. if fst p = k then (fst p, f (snd p)) else p) js"
proof (induction js)
  case Nil
  then show ?case by simp
next
  case (Cons p js)
  show ?case
  proof (cases "fst p = k")
    case True
    then have "k \<notin> fst ` set js" using Cons.prems by auto
    then have "map (\<lambda>p. if fst p = k then (fst p, f (snd p)) else p) js = js"
      by (intro map_idI) auto
    then show ?thesis using True by simp
  next
    case False
    then show ?thesis using Cons by simp
  qed
qed

lemma show_rows_completed:
  assumes "distinct (map fst js)"
  shows "show_rows (AList.map_entry k (\<lambda>info. info\<lparr>completed := True\<rparr>) js)
         = map (\<lambda>p. row_text (fst p) (conversation_id (reference (snd p)))
                      (fst p = k \<or> completed (snd p)))
             (object_entries js)"
proof -
  let ?g = "\<lambda>p. if fst p = k then (fst p, (snd p)\<lparr>completed := True\<rparr>) else p"
  have "object_entries (map ?g js) = map ?g (object_entries js)"
    by (rule object_entries_map) simp
  then show ?thesis
    unfolding show_rows_def map_entry_as_map[OF assms]
    by (simp add: show_row_def o_def)
qed

lemma show_rows_flags:
  assumes "\<forall>p \<in> set js. f p = completed (snd p)"
  shows "show_rows js
         = map (\<lambda>p. row_text (fst p) (conversation_id (reference (snd p))) (f p)) (object_entries js)"
  unfolding show_rows_def using assms
  by (intro map_cong) (auto simp: show_row_def set_object_entries)

lemma utterance_show [simp]: "utterance_of (Some ''show'') = ''show''"
  by (simp add: utterance_of_def or_empty_def trim_def is_ws_def toLowerCase_def
      to_lower_char_def is_upper_def)

lemma on_turn_show:
  "sent (on_turn e (message r ''show'') s)
   = (if jobs s = [] then [''The job log is empty.'']
      else [table_header @ join_br (show_rows (jobs s))])"
  by (simp add: message_def on_turn_message dispatch_def showJobs_def Let_def)

section \<open>Runs at distinct milliseconds\<close>

lemma runs_jobs:
  assumes "distinct (map (\<lambda>p. getMilliseconds (now (fst p))) rs)"
    and "\<forall>p \<in> set rs. map_of (jobs s) (show_nat (getMilliseconds (now (fst p)))) = None"
  shows "jobs (run_turns s (map (\<lambda>p. (fst p, message (snd p) ''run'')) rs))
         = jobs s @ map run_record rs"
  using assms
proof (induction rs arbitrary: s)
  case Nil
  then show ?case by simp
next
  case (Cons p rs)
  let ?s1 = "storage (on_turn (fst p) (message (snd p) ''run'') s)"
  have j1: "jobs ?s1 = jobs s @ [run_record p]"
    using Cons.prems(2) by (simp add: on_turn_run_jobs run_record_def)
  have d: "distinct (map (\<lambda>p. getMilliseconds (now (fst p))) rs)"
    using Cons.prems(1) by simp
  have n: "\<forall>q \<in> set rs. map_of (jobs ?s1) (show_nat (getMilliseconds (now (fst q)))) = None"
  proof
    fix q assume q: "q \<in> set rs"
    have "getMilliseconds (now (fst p)) \<notin> (\<lambda>p. getMilliseconds (now (fst p))) ` set rs"
      using Cons.prems(1) by simp
    then have "getMilliseconds (now (fst q)) \<noteq> getMilliseconds (now (fst p))"
      using q by (metis image_eqI)
    then have "show_nat (getMilliseconds (now (fst q))) \<noteq> show_nat (getMilliseconds (now (fst p)))"
      using show_nat_inj by blast
    then show "map_of (jobs ?s1) (show_nat (getMilliseconds (now (fst q)))) = None"
      using Cons.prems(2) q by (simp add: j1 run_record_def map_add_def)
  qed
  show ?case
    using Cons.IH[OF d n] by (simp add: j1)
qed

lemma runs_registry:
  assumes "jobs s0 = []"
    and "distinct (map (\<lambda>p. getMilliseconds (now (fst p))) rs)"
  shows "jobs (run_turns s0 (map (\<lambda>p. (fst p, message (snd p) ''run'')) rs)) = map run_record rs"
    and "distinct (map fst (map run_record rs))"
proof -
  show "jobs (run_turns s0 (map (\<lambda>p. (fst p, message (snd p) ''run'')) rs)) = map run_record rs"
    using runs_jobs[OF assms(2), of s0] assms(1) by simp
  have "map fst (map run_record rs)
        = map show_nat (map (\<lambda>p. getMilliseconds (now (fst p))) rs)"
    by (simp add: run_record_def o_def)
  moreover have "inj_on show_nat A" for A
    using show_nat_inj by (auto simp: inj_on_def)
  ultimately show "distinct (map fst (map run_record rs))"
    using assms(2) by (simp only: distinct_map)
qed

section \<open>The table after runs and a completion\<close>

text \<open>
  When the clock readings of the \<open>run\<close> commands have pairwise distinct millisecond
  components, the table has a row for each run, all with the flag \<open>false\<close>, and a
  \<open>done\<close> whose resume succeeds turns the flag of its row and of no other.
\<close>

lemma table_after_distinct_runs:
  assumes "jobs s0 = []"
    and "distinct (map (\<lambda>p. getMilliseconds (now (fst p))) rs)"
  shows "(let s = run_turns s0 (map (\<lambda>p. (fst p, message (snd p) ''run'')) rs)
          in length (show_rows (jobs s)) = length rs
           \<and> show_rows (jobs s)
               = map (\<lambda>q. row_text (fst q) (conversation_id (reference (snd q))) False)
                   (object_entries (jobs s))
           \<and> (\<forall>e' r'. sent (on_turn e' (message r' ''show'') s)
                  = (if rs = [] then [''The job log is empty.'']
                     else [table_header @ join_br (show_rows (jobs s))]))
           \<and> (\<forall>p e r. p \<in> set rs \<longrightarrow> adapter e = Reachable \<longrightarrow>
                (let w = show_nat (getMilliseconds (now (fst p)));
                     s' = storage (on_turn e (done_message r w) s)
                 in show_rows (jobs s')
                     = map (\<lambda>q. row_text (fst q) (conversation_id (reference (snd q))) (fst q = w))
                         (object_entries (jobs s))
                  \<and> (\<forall>e' r'. sent (on_turn e' (message r' ''show'') s')
                         = [table_header @ join_br (show_rows (jobs s'))]))))"
proof -
  define s where "s = run_turns s0 (map (\<lambda>p. (fst p, message (snd p) ''run'')) rs)"
  have js: "jobs s = map run_record rs"
    unfolding s_def by (rule runs_registry(1)[OF assms])
  have dj: "distinct (map fst (jobs s))"
    unfolding js by (rule runs_registry(2)[OF assms])
  have nc: "\<forall>q \<in> set (jobs s). \<not> completed (snd q)"
    unfolding js by (auto simp: run_record_def)
  have 1: "length (show_rows (jobs s)) = length rs"
    by (simp add: show_rows_def length_object_entries js)
  have 2: "show_rows (jobs s)
        = map (\<lambda>q. row_text (fst q) (conversation_id (reference (snd q))) False)
            (object_entries (jobs s))"
    by (rule show_rows_flags) (use nc in simp)
  have 3: "sent (on_turn e' (message r' ''show'') s)
        = (if rs = [] then [''The job log is empty.'']
           else [table_header @ join_br (show_rows (jobs s))])" for e' r'
    by (simp add: on_turn_show js)
  have 4: "show_rows (jobs (storage (on_turn e (done_message r (show_nat (getMilliseconds (now (fst p))))) s)))
            = map (\<lambda>q. row_text (fst q) (conversation_id (reference (snd q)))
                         (fst q = show_nat (getMilliseconds (now (fst p)))))
                (object_entries (jobs s))
         \<and> (\<forall>e' r'. sent (on_turn e' (message r' ''show'')
                 (storage (on_turn e (done_message r (show_nat (getMilliseconds (now (fst p))))) s)))
              = [table_header @ join_br (show_rows (jobs
                  (storage (on_turn e (done_message r (show_nat (getMilliseconds (now (fst p))))) s))))])"
    if p: "p \<in> set rs" and e: "adapter e = Reachable" for p e r
  proof -
    let ?w = "show_nat (getMilliseconds (now (fst p)))"
    let ?s' = "storage (on_turn e (done_message r ?w) s)"
    have "run_record p \<in> set (jobs s)" using p js by simp
    then have m: "map_of (jobs s) ?w = Some (snd (run_record p))"
      using dj by (simp add: run_record_def)
    have n: "\<not> completed (snd (run_record p))" by (simp add: run_record_def)
    have w: "?w \<noteq> []" "list_all is_digit ?w" using show_nat_digits by blast+
    have j': "jobs ?s' = AList.map_entry ?w (\<lambda>info. info\<lparr>completed := True\<rparr>) (jobs s)"
      using first_done[OF w m n e, of r] by simp
    have a: "show_rows (jobs ?s')
          = map (\<lambda>q. row_text (fst q) (conversation_id (reference (snd q)))
                       (fst q = ?w \<or> completed (snd q))) (object_entries (jobs s))"
      unfolding j' by (rule show_rows_completed[OF dj])
    have b: "map (\<lambda>q. row_text (fst q) (conversation_id (reference (snd q)))
                       (fst q = ?w \<or> completed (snd q))) (object_entries (jobs s))
           = map (\<lambda>q. row_text (fst q) (conversation_id (reference (snd q))) (fst q = ?w))
               (object_entries (jobs s))"
      using nc by (intro map_cong) (auto simp: set_object_entries)
    have "jobs s \<noteq> []" using p js by auto
    then have c: "jobs ?s' \<noteq> []"
      unfolding j' map_entry_as_map[OF dj] by simp
    show ?thesis using a b c by (simp add: on_turn_show)
  qed
  show ?thesis
    unfolding Let_def s_def[symmetric]
    using 1 2 3 4 by blast
qed

lemma two_runs:
  "map run_record [(reachable_at 12020, bob), (reachable_at 12005, alice)]
   = [(''20'', \<lparr>completed = False, reference = bob\<rparr>),
      (''5'', \<lparr>completed = False, reference = alice\<rparr>)]"
  by (simp add: run_record_def reachable_at_def getMilliseconds_def show_nat.simps digit_char_def)

lemma two_runs_entries:
  "object_entries [(''20'', \<lparr>completed = False, reference = bob\<rparr>),
                   (''5'', \<lparr>completed = False, reference = alice\<rparr>)]
   = [(''5'', \<lparr>completed = False, reference = alice\<rparr>),
      (''20'', \<lparr>completed = False, reference = bob\<rparr>)]"
  by (simp add: object_entries_def is_array_index_def digits_val_def is_digit_def)

lemma table_after_distinct_runs_example:
  "jobs empty_store = []
   \<and> distinct (map (\<lambda>p. getMilliseconds (now (fst p)))
                 [(reachable_at 12020, bob), (reachable_at 12005, alice)])
   \<and> length (show_rows (jobs (run_turns empty_store
         (map (\<lambda>p. (fst p, message (snd p) ''run''))
            [(reachable_at 12020, bob), (reachable_at 12005, alice)])))) = 2
   \<and> show_rows (jobs (run_turns empty_store
         (map (\<lambda>p. (fst p, message (snd p) ''run''))
            [(reachable_at 12020, bob), (reachable_at 12005, alice)])))
       = [row_text ''5'' ''c1|livechat'' False, row_text ''20'' ''c2'' False]
   \<and> (reachable_at 12020, bob) \<in> set [(reachable_at 12020, bob), (reachable_at 12005, alice)]
   \<and> adapter (reachable_at 9) = Reachable
   \<and> show_rows (jobs (storage (on_turn (reachable_at 9) (done_message alice ''20'')
         (run_turns empty_store
            (map (\<lambda>p. (fst p, message (snd p) ''run''))
               [(reachable_at 12020, bob), (reachable_at 12005, alice)])))))
       = [row_text ''5'' ''c1|livechat'' False, row_text ''20'' ''c2'' True]"
proof -
  let ?rs = "[(reachable_at 12020, bob), (reachable_at 12005, alice)]"
  let ?s = "run_turns empty_store (map (\<lambda>p. (fst p, message (snd p) ''run'')) ?rs)"
  have h1: "jobs empty_store = []" by (simp add: empty_store_def)
  have h2: "distinct (map (\<lambda>p. getMilliseconds (now (fst p))) ?rs)"
    by (simp add: reachable_at_def getMilliseconds_def)
  have h3: "(reachable_at 12020, bob) \<in> set ?rs" by simp
  have h4: "adapter (reachable_at 9) = Reachable" by (simp add: reachable_at_def)
  have w: "show_nat (getMilliseconds (now (fst (reachable_at 12020, bob)))) = ''20''"
    by (simp add: reachable_at_def getMilliseconds_def show_nat.simps digit_char_def)
  have js: "jobs ?s = [(''20'', \<lparr>completed = False, reference = bob\<rparr>),
                       (''5'', \<lparr>completed = False, reference = alice\<rparr>)]"
    using runs_registry(1)[OF h1 h2] two_runs by simp
  note t = table_after_distinct_runs[OF h1 h2, unfolded Let_def]
  have a: "length (show_rows (jobs ?s)) = 2"
    using t[THEN conjunct1] by simp
  have b: "show_rows (jobs ?s) = [row_text ''5'' ''c1|livechat'' False, row_text ''20'' ''c2'' False]"
    using t[THEN conjunct2, THEN conjunct1]
    unfolding js two_runs_entries by (simp add: alice_def bob_def)
  have c: "show_rows (jobs (storage (on_turn (reachable_at 9) (done_message alice ''20'') ?s)))
           = [row_text ''5'' ''c1|livechat'' False, row_text ''20'' ''c2'' True]"
    using t[THEN conjunct2, THEN conjunct2, THEN conjunct2, rule_format, OF h3 h4, of alice,
        THEN conjunct1]
    unfolding w js two_runs_entries by (simp add: alice_def bob_def)
  show ?thesis using h1 h2 h3 h4 a b c by blast
qed

section \<open>Two runs on the same millisecond\<close>

lemma single_row:
  "show_rows [(''5'', \<lparr>completed = False, reference = alice\<rparr>)]
   = [row_text ''5'' ''c1|livechat'' False]"
  by (simp add: show_rows_def show_row_def object_entries_def is_array_index_def digits_val_def
      is_digit_def alice_def)

text \<open>
  C4.  The claim has \<open>show\<close> list exactly \<open>N\<close> rows after \<open>N\<close> \<open>run\<close> commands from an
  empty registry.  The code, at two \<open>run\<close> commands whose clock readings 12005 and 77005
  have the same millisecond component 5: the second finds the id 5 taken and creates
  nothing, so the registry holds the one record of the first and \<open>show\<close> lists one row,
  where the claim has two.  Line 129 of bot.js means the id to be unique (\<open>Create a
  unique job ID.\<close>), and \<open>getMilliseconds\<close> has a thousand values.
\<close>

theorem same_millisecond_one_row:
  "jobs (run_turns empty_store
      [(reachable_at 12005, message alice ''run''), (reachable_at 77005, message bob ''run'')])
     = [(''5'', \<lparr>completed = False, reference = alice\<rparr>)]
   \<and> length (show_rows (jobs (run_turns empty_store
      [(reachable_at 12005, message alice ''run''), (reachable_at 77005, message bob ''run'')]))) = 1
   \<and> sent (on_turn (reachable_at 80000) (message bob ''show'') (run_turns empty_store
      [(reachable_at 12005, message alice ''run''), (reachable_at 77005, message bob ''run'')]))
     = [table_header @ join_br [row_text ''5'' ''c1|livechat'' False]]"
proof -
  have "getMilliseconds (now (reachable_at 12005)) = getMilliseconds (now (reachable_at 77005))"
    by (simp add: getMilliseconds_def reachable_at_def)
  from run_twice_same_ms[OF this, of empty_store alice bob]
  have j: "jobs (run_turns empty_store
      [(reachable_at 12005, message alice ''run''), (reachable_at 77005, message bob ''run'')])
     = [(''5'', \<lparr>completed = False, reference = alice\<rparr>)]"
    using one_job_store_jobs by (simp add: one_job_store_def)
  show ?thesis
    unfolding on_turn_show j by (simp add: single_row)
qed

section \<open>The command branch against the classification\<close>

lemma word_at_cases: "word_at ws i = Undefined \<or> (\<exists>w. word_at ws i = Str w)"
  by (induction ws i rule: word_at.induct) simp_all

lemma parseInt_undefined [simp]: "parseInt_isNaN Undefined"
  by (simp add: parseInt_isNaN_def strip_sign_def is_ws_def is_digit_def)

lemma first_word_run [simp]: "word_at (split_space ''run'') 0 \<noteq> Str ''done''"
  by simp

lemma first_word_show [simp]: "word_at (split_space ''show'') 0 \<noteq> Str ''done''"
  by simp

lemma dispatch_classify:
  "dispatch e r (utterance_of input) t = perform e r (classify input) t"
proof -
  let ?u = "utterance_of input"
  consider (is_run) "?u = ''run''" | (is_show) "?u \<noteq> ''run''" "?u = ''show''"
    | (is_done) "?u \<noteq> ''run''" "?u \<noteq> ''show''" "word_at (split_space ?u) 0 = Str ''done''"
    | (other) "?u \<noteq> ''run''" "?u \<noteq> ''show''" "word_at (split_space ?u) 0 \<noteq> Str ''done''"
    by blast
  then show ?thesis
  proof cases
    case is_run
    then show ?thesis by (simp add: dispatch_def classify_def)
  next
    case is_show
    then show ?thesis by (simp add: dispatch_def classify_def)
  next
    case is_done
    from word_at_cases[of "split_space ?u" 1] show ?thesis
    proof (elim disjE exE)
      assume "word_at (split_space ?u) 1 = Undefined"
      then show ?thesis using is_done by (simp add: dispatch_def classify_def Let_def)
    next
      fix w assume "word_at (split_space ?u) 1 = Str w"
      then show ?thesis using is_done by (simp add: dispatch_def classify_def Let_def)
    qed
  next
    case other
    then show ?thesis by (simp add: dispatch_def classify_def Let_def)
  qed
qed

lemma classify_iffs:
  "(classify input = RUN) = (utterance_of input = ''run'')"
  "(classify input = SHOW) = (utterance_of input = ''show'')"
  "(classify input = DONE w)
     = (word_at (split_space (utterance_of input)) 0 = Str ''done''
        \<and> word_at (split_space (utterance_of input)) 1 = Str w \<and> \<not> parseInt_isNaN (Str w))"
  "(classify input = DONE_MISSING_ID)
     = (word_at (split_space (utterance_of input)) 0 = Str ''done''
        \<and> parseInt_isNaN (word_at (split_space (utterance_of input)) 1))"
  "(classify input = UNRECOGNIZED)
     = (utterance_of input \<noteq> ''run'' \<and> utterance_of input \<noteq> ''show''
        \<and> word_at (split_space (utterance_of input)) 0 \<noteq> Str ''done'')"
  using word_at_cases[of "split_space (utterance_of input)" 1]
  by (auto simp: classify_def Let_def split: js_value.splits)

lemma on_turn_missing_id:
  assumes "classify input = DONE_MISSING_ID"
  shows "sent (on_turn e \<lparr>source = r, kind = Message input\<rparr> s) = [usage_hint]
       \<and> jobs (storage (on_turn e \<lparr>source = r, kind = Message input\<rparr> s)) = jobs s
       \<and> users (storage (on_turn e \<lparr>source = r, kind = Message input\<rparr> s)) = users s
       \<and> dialog_stacks (storage (on_turn e \<lparr>source = r, kind = Message input\<rparr> s)) = dialog_stacks s
       \<and> resumed (on_turn e \<lparr>source = r, kind = Message input\<rparr> s) = None
       \<and> notified (on_turn e \<lparr>source = r, kind = Message input\<rparr> s) = []
       \<and> thrown (on_turn e \<lparr>source = r, kind = Message input\<rparr> s) = None"
  unfolding on_turn_message dispatch_classify assms
  by (auto simp: Let_def dialog_stacks_def fun_eq_iff)

lemma on_turn_unrecognized:
  assumes "classify input = UNRECOGNIZED"
  shows "on_turn e \<lparr>source = r, kind = Message input\<rparr> s
         = save_jobs (save_dialog r (convs s (conv_key r))
             (continueDialog (text_value input) (dialog_context r s)) (new_turn s))"
  by (rule on_turn_fall_through) (simp add: dispatch_classify assms)

section \<open>The dispatcher\<close>

text \<open>
  C8.  For every text of a message (a string, or none), the command branch of the turn
  does exactly what the dispatch table says for the classification of the text, and the
  classification is RUN exactly when the trimmed, lower-cased text is \<open>run\<close>, SHOW
  exactly when it is \<open>show\<close>, DONE with the second token exactly when the first token
  is \<open>done\<close> and \<open>parseInt\<close> of the second token is a number, DONE_MISSING_ID exactly
  when the first token is \<open>done\<close> and \<open>parseInt\<close> of the second token (absent or not)
  is NaN, and UNRECOGNIZED in every other case.  A DONE_MISSING_ID turn replies with the
  usage hint and changes neither registry, profiles nor dialog stacks; an UNRECOGNIZED
  turn is the continuation of the conversation's dialog with the text.
\<close>

theorem dispatcher_classification:
  "dispatch e r (utterance_of input) t = perform e r (classify input) t
   \<and> (classify input = RUN) = (utterance_of input = ''run'')
   \<and> (classify input = SHOW) = (utterance_of input = ''show'')
   \<and> (\<forall>w. (classify input = DONE w)
          = (word_at (split_space (utterance_of input)) 0 = Str ''done''
             \<and> word_at (split_space (utterance_of input)) 1 = Str w \<and> \<not> parseInt_isNaN (Str w)))
   \<and> (classify input = DONE_MISSING_ID)
       = (word_at (split_space (utterance_of input)) 0 = Str ''done''
          \<and> parseInt_isNaN (word_at (split_space (utterance_of input)) 1))
   \<and> (classify input = UNRECOGNIZED)
       = (utterance_of input \<noteq> ''run'' \<and> utterance_of input \<noteq> ''show''
          \<and> word_at (split_space (utterance_of input)) 0 \<noteq> Str ''done'')
   \<and> (classify input = DONE_MISSING_ID \<longrightarrow>
         sent (on_turn e \<lparr>source = r, kind = Message input\<rparr> s) = [usage_hint]
       \<and> jobs (storage (on_turn e \<lparr>source = r, kind = Message input\<rparr> s)) = jobs s
       \<and> users (storage (on_turn e \<lparr>source = r, kind = Message input\<rparr> s)) = users s
       \<and> dialog_stacks (storage (on_turn e \<lparr>source = r, kind = Message input\<rparr> s)) = dialog_stacks s
       \<and> resumed (on_turn e \<lparr>source = r, kind = Message input\<rparr> s) = None
       \<and> notified (on_turn e \<lparr>source = r, kind = Message input\<rparr> s) = []
       \<and> thrown (on_turn e \<lparr>source = r, kind = Message input\<rparr> s) = None)
   \<and> (classify input = UNRECOGNIZED \<longrightarrow>
         on_turn e \<lparr>source = r, kind = Message input\<rparr> s
         = save_jobs (save_dialog r (convs s (conv_key r))
             (continueDialog (text_value input) (dialog_context r s)) (new_turn s)))"
  using dispatch_classify[of e r input t] classify_iffs[of input]
    on_turn_missing_id[of input e r s] on_turn_unrecognized[of input e r s]
  by blast

lemmas classify_eval =
  classify_def utterance_of_def or_empty_def trim_def is_ws_def toLowerCase_def
  to_lower_char_def is_upper_def set_bit5_def parseInt_isNaN_def strip_sign_def is_digit_def
  is_hex_digit_def Let_def

theorem dispatcher_classification_witness:
  "classify (Some '' Done'') = DONE_MISSING_ID
   \<and> sent (on_turn (reachable_at 1) \<lparr>source = alice, kind = Message (Some '' Done'')\<rparr> empty_store)
       = [usage_hint]
   \<and> jobs (storage (on_turn (reachable_at 1) \<lparr>source = alice, kind = Message (Some '' Done'')\<rparr>
         empty_store)) = []
   \<and> classify (Some ''Ada'') = UNRECOGNIZED
   \<and> sent (on_turn (reachable_at 1) \<lparr>source = alice, kind = Message (Some ''Ada'')\<rparr> empty_store) = []
   \<and> classify (Some '' RUN '') = RUN
   \<and> classify (Some ''done 5abc'') = DONE ''5abc''
   \<and> classify (Some ''done  5'') = DONE_MISSING_ID
   \<and> classify None = UNRECOGNIZED"
proof -
  have a: "classify (Some '' Done'') = DONE_MISSING_ID" by (simp add: classify_eval)
  have b: "classify (Some ''Ada'') = UNRECOGNIZED" by (simp add: classify_eval)
  have c: "classify (Some '' RUN '') = RUN" by (simp add: classify_eval)
  have d: "classify (Some ''done 5abc'') = DONE ''5abc''" by (simp add: classify_eval)
  have f: "classify (Some ''done  5'') = DONE_MISSING_ID" by (simp add: classify_eval)
  have g: "classify None = UNRECOGNIZED" by (simp add: classify_eval)
  note m = dispatcher_classification[of "reachable_at 1" alice "Some '' Done''" _ empty_store,
      THEN conjunct2, THEN conjunct2, THEN conjunct2, THEN conjunct2, THEN conjunct2,
      THEN conjunct2, THEN conjunct1, rule_format, OF a]
  note u = dispatcher_classification[of "reachable_at 1" alice "Some ''Ada''" _ empty_store,
      THEN conjunct2, THEN conjunct2, THEN conjunct2, THEN conjunct2, THEN conjunct2,
      THEN conjunct2, THEN conjunct2, rule_format, OF b]
  have e: "sent (on_turn (reachable_at 1) \<lparr>source = alice, kind = Message (Some ''Ada'')\<rparr> empty_store) = []"
    unfolding u by (simp add: dialog_context_def empty_store_def continueDialog_empty)
  show ?thesis
    using a b c d f g m e by (simp add: empty_store_def)
qed

section \<open>Every job's conversation has a stored dialog state\<close>

lemma notification_to_str:
  "to_str v = to_str v' \<Longrightarrow> notification v r = notification v' r"
  by (simp add: notification_def fun_eq_iff Let_def)

lemma completeJob_to_str:
  "to_str v = to_str v' \<Longrightarrow> completeJob ad v t = completeJob ad v' t"
  using notification_to_str[of v v'] by (auto simp: completeJob_def split: option.splits)

lemma completeJob_convs:
  "convs (storage (completeJob ad v t)) k = convs (storage t) k
   \<or> (\<exists>info. map_of (jobs_c t) (to_str v) = Some info \<and> k = conv_key (reference info)
        \<and> convs (storage (completeJob ad v t)) k \<noteq> None)"
  by (cases ad)
     (auto simp: completeJob_def continueConversation_def notification_def Let_def
           split: option.splits)

lemma completeJob_convs_grow:
  "convs (storage t) k \<noteq> None \<Longrightarrow> convs (storage (completeJob ad v t)) k \<noteq> None"
  using completeJob_convs[of ad v t k] by auto

lemma dispatch_convs_grow:
  "convs (storage t) k \<noteq> None \<Longrightarrow> convs (storage (dispatch e r u t)) k \<noteq> None"
  by (simp add: dispatch_def Let_def completeJob_convs_grow del: not_None_eq)

lemma map_entry_references:
  "(\<lambda>p. reference (snd p)) ` set (AList.map_entry k (\<lambda>info. info\<lparr>completed := True\<rparr>) js)
   = (\<lambda>p. reference (snd p)) ` set js"
  by (induction js) auto

lemma update_entries: "set (AList.update k v al) \<subseteq> insert (k, v) (set al)"
  by (induction al) auto

lemma on_turn_convs_grow:
  assumes "convs s k \<noteq> None"
  shows "convs (storage (on_turn e a s)) k \<noteq> None"
proof (cases "thrown (on_turn e a s) = None")
  case False
  then show ?thesis using on_turn_thrown_storage[of e a s] assms by simp
next
  case nt: True
  show ?thesis
  proof (cases "kind a")
    case (Message input)
    let ?t1 = "dispatch e (source a) (toLowerCase (trim (or_empty input))) (new_turn s)"
    have g: "convs (storage ?t1) k \<noteq> None"
      using dispatch_convs_grow[of "new_turn s" k] assms by simp
    show ?thesis
      using Message g by (auto simp: on_turn_def Let_def)
  next
    case (Event nm v)
    have g: "convs (storage (completeJob (adapter e) v (new_turn s))) k \<noteq> None"
      using completeJob_convs_grow[of "new_turn s" k] assms by simp
    show ?thesis
      using Event g assms by (auto simp: on_turn_def Let_def)
  next
    case (ConversationUpdate ms)
    then show ?thesis using assms by (auto simp: on_turn_def Let_def split: list.splits)
  next
    case OtherActivity
    then show ?thesis using assms by (simp add: on_turn_def)
  qed
qed

lemma on_turn_message_conv:
  assumes "kind a = Message input" and "thrown (on_turn e a s) = None"
  shows "convs (storage (on_turn e a s)) (conv_key (source a)) \<noteq> None"
proof -
  let ?t1 = "dispatch e (source a) (toLowerCase (trim (or_empty input))) (new_turn s)"
  have "thrown ?t1 = None"
    using assms by (auto simp: on_turn_def Let_def split: if_splits)
  then show ?thesis
    using assms(1) dispatch_convs_grow[of "new_turn s" "conv_key (source a)" e "source a"]
    by (auto simp: on_turn_def Let_def)
qed

lemma on_turn_new_job_is_message:
  assumes "jobs (storage (on_turn e a s)) \<noteq> jobs s"
    and "\<forall>k info. map_of (jobs s) k = Some info \<longrightarrow> completed info
          \<or> jobs (storage (on_turn e a s)) \<noteq> AList.map_entry k (\<lambda>info. info\<lparr>completed := True\<rparr>) (jobs s)"
  shows "\<exists>input. kind a = Message input"
proof (cases "kind a")
  case (Message input)
  then show ?thesis by simp
next
  case (Event nm v)
  have "thrown (on_turn e a s) = None"
    using assms(1) on_turn_thrown_storage[of e a s] by (cases "thrown (on_turn e a s)") auto
  then have "jobs (storage (on_turn e a s)) = jobs s
      \<or> jobs (storage (on_turn e a s)) = jobs_c (completeJob (adapter e) v (new_turn s))"
    using Event by (auto simp: on_turn_def Let_def split: if_splits)
  then show ?thesis
    using assms by (auto simp: completeJob_jobs_c split: option.splits if_splits)
next
  case (ConversationUpdate ms)
  then show ?thesis
    using assms(1) by (auto simp: on_turn_def Let_def split: list.splits if_splits)
next
  case OtherActivity
  then show ?thesis using assms(1) by (simp add: on_turn_def)
qed

lemma job_convs_on_turn:
  assumes "\<forall>p \<in> set (jobs s). convs s (conv_key (reference (snd p))) \<noteq> None"
  shows "\<forall>p \<in> set (jobs (storage (on_turn e a s))).
           convs (storage (on_turn e a s)) (conv_key (reference (snd p))) \<noteq> None"
  using on_turn_jobs[of e a s]
proof (elim disjE conjE exE)
  assume "jobs (storage (on_turn e a s)) = jobs s"
  then show ?thesis using assms on_turn_convs_grow by (simp del: not_None_eq)
next
  assume n: "map_of (jobs s) (show_nat (getMilliseconds (now e))) = None"
    and u: "jobs (storage (on_turn e a s))
      = AList.update (show_nat (getMilliseconds (now e)))
          \<lparr>completed = False, reference = source a\<rparr> (jobs s)"
  have ne: "jobs (storage (on_turn e a s)) \<noteq> jobs s"
    unfolding u using n by (simp add: update_absent)
  have nm: "jobs (storage (on_turn e a s))
            \<noteq> AList.map_entry k (\<lambda>info. info\<lparr>completed := True\<rparr>) (jobs s)" for k
  proof
    assume "jobs (storage (on_turn e a s))
            = AList.map_entry k (\<lambda>info. info\<lparr>completed := True\<rparr>) (jobs s)"
    then have "fst ` set (AList.update (show_nat (getMilliseconds (now e)))
          \<lparr>completed = False, reference = source a\<rparr> (jobs s)) = fst ` set (jobs s)"
      unfolding u by (simp add: dom_map_entry)
    then have "show_nat (getMilliseconds (now e)) \<in> fst ` set (jobs s)"
      by (simp add: dom_update) blast
    then show False using n by (simp add: map_of_eq_None_iff)
  qed
  obtain input where m: "kind a = Message input"
    using on_turn_new_job_is_message[OF ne] nm by blast
  have th: "thrown (on_turn e a s) = None"
    using ne on_turn_thrown_storage[of e a s] by (cases "thrown (on_turn e a s)") auto
  have c: "convs (storage (on_turn e a s)) (conv_key (source a)) \<noteq> None"
    by (rule on_turn_message_conv[OF m th])
  show ?thesis
  proof
    fix p assume "p \<in> set (jobs (storage (on_turn e a s)))"
    then have "p = (show_nat (getMilliseconds (now e)), \<lparr>completed = False, reference = source a\<rparr>)
               \<or> p \<in> set (jobs s)"
      unfolding u using update_entries by fastforce
    then show "convs (storage (on_turn e a s)) (conv_key (reference (snd p))) \<noteq> None"
    proof
      assume "p = (show_nat (getMilliseconds (now e)), \<lparr>completed = False, reference = source a\<rparr>)"
      then show ?thesis using c by simp
    next
      assume "p \<in> set (jobs s)"
      then have "convs s (conv_key (reference (snd p))) \<noteq> None" using assms by blast
      then show ?thesis by (rule on_turn_convs_grow)
    qed
  qed
next
  fix k info
  assume m: "jobs (storage (on_turn e a s))
      = AList.map_entry k (\<lambda>info. info\<lparr>completed := True\<rparr>) (jobs s)"
  show ?thesis
  proof
    fix p assume "p \<in> set (jobs (storage (on_turn e a s)))"
    then have "reference (snd p) \<in> (\<lambda>p. reference (snd p)) ` set (jobs s)"
      unfolding m using map_entry_references[of k "jobs s"] by blast
    then obtain q where "q \<in> set (jobs s)" and "reference (snd p) = reference (snd q)"
      by blast
    then have "convs s (conv_key (reference (snd p))) \<noteq> None" using assms by simp
    then show "convs (storage (on_turn e a s)) (conv_key (reference (snd p))) \<noteq> None"
      by (rule on_turn_convs_grow)
  qed
qed

lemma job_convs_run_turns:
  assumes "\<forall>p \<in> set (jobs s). convs s (conv_key (reference (snd p))) \<noteq> None"
  shows "\<forall>p \<in> set (jobs (run_turns s turns)).
           convs (run_turns s turns) (conv_key (reference (snd p))) \<noteq> None"
  using assms
proof (induction turns arbitrary: s)
  case Nil
  then show ?case by simp
next
  case (Cons q turns)
  obtain e a where q: "q = (e, a)" by (cases q)
  show ?case
    unfolding q run_turns.simps
    by (rule Cons.IH[OF job_convs_on_turn[OF Cons.prems]])
qed

lemma job_convs_reachable:
  "\<forall>p \<in> set (jobs (run_turns empty_store turns)).
      convs (run_turns empty_store turns) (conv_key (reference (snd p))) \<noteq> None"
  by (rule job_convs_run_turns) (simp add: empty_store_def)

section \<open>The \<open>jobCompleted\<close> event and the \<open>done\<close> message\<close>

lemma parseInt_to_str: "parseInt_isNaN v = parseInt_isNaN (Str (to_str v))"
  by (simp add: parseInt_isNaN_def)

lemma on_turn_event:
  "on_turn e (job_completed_event r v) s
   = (let t1 = (if parseInt_isNaN (Str (to_str v)) then new_turn s
                else completeJob (adapter e) (Str (to_str v)) (new_turn s))
      in if thrown t1 \<noteq> None then t1 else save_jobs t1)"
proof -
  have "completeJob (adapter e) v (new_turn s)
        = completeJob (adapter e) (Str (to_str v)) (new_turn s)"
    by (rule completeJob_to_str) simp
  then show ?thesis
    using parseInt_to_str[of v]
    by (simp add: on_turn_def job_completed_event_def Let_def)
qed

text \<open>A value whose string is a token that \<open>parseInt\<close> accepts.\<close>

lemma event_vs_message:
  assumes "\<forall>p \<in> set (jobs s). convs s (conv_key (reference (snd p))) \<noteq> None"
    and "w \<noteq> []" and "\<forall>c\<in>set w. \<not> is_ws c \<and> to_lower_char c = c"
    and "\<not> parseInt_isNaN (Str w)" and "to_str v = w"
  shows "jobs (storage (on_turn e (job_completed_event r v) s))
           = jobs (storage (on_turn e (done_message r w) s))
       \<and> users (storage (on_turn e (job_completed_event r v) s))
           = users (storage (on_turn e (done_message r w) s))
       \<and> dialog_stacks (storage (on_turn e (job_completed_event r v) s))
           = dialog_stacks (storage (on_turn e (done_message r w) s))
       \<and> notified (on_turn e (job_completed_event r v) s)
           = notified (on_turn e (done_message r w) s)
       \<and> resumed (on_turn e (job_completed_event r v) s)
           = resumed (on_turn e (done_message r w) s)
       \<and> thrown (on_turn e (job_completed_event r v) s)
           = thrown (on_turn e (done_message r w) s)
       \<and> sent (on_turn e (job_completed_event r v) s)
           = sent (on_turn e (done_message r w) s)"
proof -
  let ?t1 = "completeJob (adapter e) (Str w) (new_turn s)"
  have ev: "on_turn e (job_completed_event r v) s
            = (if thrown ?t1 \<noteq> None then ?t1 else save_jobs ?t1)"
    unfolding on_turn_event using assms(4,5) by (simp add: Let_def)
  have ms: "on_turn e (done_message r w) s
            = (if thrown ?t1 \<noteq> None then ?t1
               else (let dc = \<lparr>stack = stack_of (convs s (conv_key r)),
                               user = users (storage ?t1) (user_key r), out = sent ?t1\<rparr>;
                         dc1 = (if sent ?t1 = [] then continueDialog (Str (''done '' @ w)) dc else dc)
                     in save_jobs (save_dialog r (convs s (conv_key r)) dc1 ?t1)))"
    unfolding on_turn_done_token[OF assms(2,3)] using assms(4) by (simp add: Let_def)
  show ?thesis
  proof (cases "thrown ?t1 = None")
    case False
    then show ?thesis unfolding ev ms by simp
  next
    case True
    have r: "sent ?t1 \<noteq> []"
      using completeJob_responds[of "new_turn s" "adapter e" "Str w"] True by simp
    have st: "stack_of (convs (storage ?t1) (conv_key r)) = []"
      if none: "convs s (conv_key r) = None"
    proof -
      from completeJob_convs[of "adapter e" "Str w" "new_turn s" "conv_key r"]
      show ?thesis
      proof (elim disjE exE conjE)
        assume "convs (storage ?t1) (conv_key r) = convs (storage (new_turn s)) (conv_key r)"
        then show ?thesis using none by simp
      next
        fix info
        assume m: "map_of (jobs_c (new_turn s)) (to_str (Str w)) = Some info"
          and k: "conv_key r = conv_key (reference info)"
        from m have "(w, info) \<in> set (jobs s)" by (simp add: map_of_SomeD)
        then have "convs s (conv_key (reference info)) \<noteq> None" using assms(1) by force
        then show ?thesis using none k by simp
      qed
    qed
    have d: "dialog_stacks (storage (save_jobs ?t1))
             = dialog_stacks (storage (save_jobs (save_dialog r (convs s (conv_key r))
                 \<lparr>stack = stack_of (convs s (conv_key r)),
                    user = users (storage ?t1) (user_key r), out = sent ?t1\<rparr> ?t1)))"
      using st by (cases "convs s (conv_key r)") (auto simp: dialog_stacks_def fun_eq_iff)
    show ?thesis
      unfolding ev ms using True r d by (simp add: Let_def)
  qed
qed

text \<open>A value that \<open>parseInt\<close> rejects: the event does nothing, the message gets the hint.\<close>

lemma event_vs_message_rejected:
  assumes "parseInt_isNaN (Str w)" and "to_str v = w"
    and "classify (Some (''done '' @ w)) = DONE_MISSING_ID"
  shows "jobs (storage (on_turn e (job_completed_event r v) s))
           = jobs (storage (on_turn e (done_message r w) s))
       \<and> users (storage (on_turn e (job_completed_event r v) s))
           = users (storage (on_turn e (done_message r w) s))
       \<and> dialog_stacks (storage (on_turn e (job_completed_event r v) s))
           = dialog_stacks (storage (on_turn e (done_message r w) s))
       \<and> notified (on_turn e (job_completed_event r v) s)
           = notified (on_turn e (done_message r w) s)
       \<and> resumed (on_turn e (job_completed_event r v) s)
           = resumed (on_turn e (done_message r w) s)
       \<and> thrown (on_turn e (job_completed_event r v) s)
           = thrown (on_turn e (done_message r w) s)
       \<and> sent (on_turn e (job_completed_event r v) s) = []
       \<and> sent (on_turn e (done_message r w) s) = [usage_hint]"
proof -
  have ev: "on_turn e (job_completed_event r v) s = save_jobs (new_turn s)"
    unfolding on_turn_event using assms(1,2) by (simp add: Let_def)
  have d: "dialog_stacks (storage (save_jobs (new_turn s))) = dialog_stacks s"
    by (simp add: dialog_stacks_def fun_eq_iff)
  note m = on_turn_missing_id[OF assms(3), of e r s, folded message_def, folded done_message_def]
  show ?thesis
    unfolding ev using m d by simp
qed

lemma number_chars_token:
  "set w \<subseteq> set ''0123456789.e+-'' \<Longrightarrow> \<forall>c\<in>set w. \<not> is_ws c \<and> to_lower_char c = c"
  using number_char_cases by blast

text \<open>
  C9.  For every Number \<open>v\<close> and in every storage that turns have produced from the
  empty one, the event \<open>jobCompleted\<close> with the value \<open>v\<close> and the message \<open>done v\<close>
  (\<open>v\<close> printed as JavaScript prints it) from the same sender end with the same
  registry, the same profiles, the same dialog stack for every conversation, the same
  call of \<open>continueConversation\<close>, the same activities sent to the job's conversation
  and the same error if the resume fails.  For a finite \<open>v\<close> both call \<open>completeJob\<close>
  with the same id and the replies to the sender are the same too.  For \<open>NaN\<close> and the
  infinities neither calls \<open>completeJob\<close>: the event sends nothing and the message is
  answered with the usage hint.
\<close>

theorem event_same_as_done:
  "jobs (storage (on_turn e (job_completed_event r (Num v)) (run_turns empty_store turns)))
     = jobs (storage (on_turn e (done_message r (to_str (Num v))) (run_turns empty_store turns)))
   \<and> users (storage (on_turn e (job_completed_event r (Num v)) (run_turns empty_store turns)))
     = users (storage (on_turn e (done_message r (to_str (Num v))) (run_turns empty_store turns)))
   \<and> dialog_stacks (storage (on_turn e (job_completed_event r (Num v)) (run_turns empty_store turns)))
     = dialog_stacks (storage (on_turn e (done_message r (to_str (Num v))) (run_turns empty_store turns)))
   \<and> notified (on_turn e (job_completed_event r (Num v)) (run_turns empty_store turns))
     = notified (on_turn e (done_message r (to_str (Num v))) (run_turns empty_store turns))
   \<and> resumed (on_turn e (job_completed_event r (Num v)) (run_turns empty_store turns))
     = resumed (on_turn e (done_message r (to_str (Num v))) (run_turns empty_store turns))
   \<and> thrown (on_turn e (job_completed_event r (Num v)) (run_turns empty_store turns))
     = thrown (on_turn e (done_message r (to_str (Num v))) (run_turns empty_store turns))
   \<and> (case v of
         Finite neg m x \<Rightarrow>
           sent (on_turn e (job_completed_event r (Num v)) (run_turns empty_store turns))
           = sent (on_turn e (done_message r (to_str (Num v))) (run_turns empty_store turns))
       | _ \<Rightarrow>
           sent (on_turn e (job_completed_event r (Num v)) (run_turns empty_store turns)) = []
           \<and> sent (on_turn e (done_message r (to_str (Num v))) (run_turns empty_store turns))
               = [usage_hint])"
proof (cases v)
  case NaN
  have a: "parseInt_isNaN (Str ''NaN'')"
    by (simp add: parseInt_isNaN_def strip_sign_def is_ws_def is_digit_def)
  have b: "classify (Some (''done '' @ ''NaN'')) = DONE_MISSING_ID"
    by (simp add: classify_eval)
  show ?thesis
    using event_vs_message_rejected[OF a _ b, of "Num v" e r "run_turns empty_store turns"] NaN
    by simp
next
  case (Infinite neg)
  show ?thesis
  proof (cases neg)
    case True
    have a: "parseInt_isNaN (Str ''-Infinity'')"
      by (simp add: parseInt_isNaN_def strip_sign_def is_ws_def is_digit_def)
    have b: "classify (Some (''done '' @ ''-Infinity'')) = DONE_MISSING_ID"
      by (simp add: classify_eval)
    show ?thesis
      using event_vs_message_rejected[OF a _ b, of "Num v" e r "run_turns empty_store turns"]
        Infinite True
      by simp
  next
    case False
    have a: "parseInt_isNaN (Str ''Infinity'')"
      by (simp add: parseInt_isNaN_def strip_sign_def is_ws_def is_digit_def)
    have b: "classify (Some (''done '' @ ''Infinity'')) = DONE_MISSING_ID"
      by (simp add: classify_eval)
    show ?thesis
      using event_vs_message_rejected[OF a _ b, of "Num v" e r "run_turns empty_store turns"]
        Infinite False
      by simp
  qed
next
  case (Finite neg m x)
  note f = finite_number_token[of neg m x]
  have t: "\<forall>c\<in>set (to_str (Num v)). \<not> is_ws c \<and> to_lower_char c = c"
    using f Finite number_chars_token[of "to_str (Num v)"] by simp
  have n: "to_str (Num v) \<noteq> []" "\<not> parseInt_isNaN (Str (to_str (Num v)))"
    using f Finite by simp_all
  show ?thesis
    using event_vs_message[OF job_convs_reachable n(1) t n(2) refl, of e r] Finite
    by simp
qed

lemma string_5: "to_str (Num (Finite False 5 0)) = ''5''"
  by (simp add: positive_to_string_def strip_zeros.simps digits_to_string_def show_nat.simps
      digit_char_def)

lemma string_1e21: "to_str (Num (Finite False 1 21)) = ''1e+21''"
  by (simp add: positive_to_string_def strip_zeros.simps digits_to_string_def exponent_part_def
      show_nat.simps digit_char_def)

theorem event_same_as_done_witness:
  "sent (on_turn (reachable_at 7) (job_completed_event bob (Num (Finite False 5 0))) one_job_store)
     = [''Job completed. Notification sent.'']
   \<and> resumed (on_turn (reachable_at 7) (job_completed_event bob (Num (Finite False 5 0)))
        one_job_store) = Some alice
   \<and> map_of (jobs (storage (on_turn (reachable_at 7) (job_completed_event bob (Num (Finite False 5 0)))
        one_job_store))) ''5'' = Some \<lparr>completed = True, reference = alice\<rparr>
   \<and> sent (on_turn (reachable_at 7) (done_message bob ''1e+21'') one_job_store)
     = [''Sorry no job with ID 1e+21.'']"
proof -
  have s: "run_turns empty_store [(reachable_at 12005, message alice ''run'')] = one_job_store"
    by (simp add: one_job_store_def)
  have a: "adapter (reachable_at 7) = Reachable" by (simp add: reachable_at_def)
  have n: "\<not> completed \<lparr>completed = False, reference = alice\<rparr>" by simp
  note t = event_same_as_done[of "reachable_at 7" bob "Finite False 5 0"
      "[(reachable_at 12005, message alice ''run'')]", unfolded s string_5]
  note u = event_same_as_done[of "reachable_at 7" bob "Finite False 1 21"
      "[(reachable_at 12005, message alice ''run'')]", unfolded s string_1e21]
  have p: "\<not> parseInt_isNaN (Str ''1e+21'')"
    by (simp add: parseInt_isNaN_def strip_sign_def is_ws_def is_digit_def)
  have e: "sent (on_turn (reachable_at 7) (job_completed_event bob (Num (Finite False 1 21)))
             one_job_store) = [''Sorry no job with ID 1e+21.'']"
    unfolding on_turn_event string_1e21
    using p completeJob_unknown[of "new_turn one_job_store" "Str ''1e+21''"]
    by (simp add: one_job_store_jobs Let_def)
  show ?thesis
    using t u e first_done[OF digits_5 job_5 n a, of bob] by (simp add: one_job_store_jobs)
qed

section \<open>The two dialogs\<close>

lemma beginDialog_HELLO_USER:
  "beginDialog HELLO_USER c
   = resumeDialog (stack c) Undefined
       (sendActivity (''Hello, '' @ to_str (name (user c)) @ '' from '' @ to_str (city (user c))) c)"
  by (simp add: beginDialog_def runStep_def displayProfile_def)

lemma beginDialog_HELLO_USER_empty:
  "stack c = [] \<Longrightarrow>
   beginDialog HELLO_USER c
   = c\<lparr>out := out c @ [''Hello, '' @ to_str (name (user c)) @ '' from '' @ to_str (city (user c))]\<rparr>"
  by (simp add: beginDialog_HELLO_USER sendActivity_def)

lemma beginDialog_WHO_ARE_YOU:
  "beginDialog WHO_ARE_YOU c
   = c\<lparr>stack := PromptFrame NAME_PROMPT ''What is your name?'' # WaterfallFrame WHO_ARE_YOU 0 # stack c,
       out := out c @ [''What is your name?'']\<rparr>"
  by (simp add: beginDialog_def runStep_def promptForName_def sendActivity_def)

lemma continueDialog_name:
  assumes "stack c = PromptFrame NAME_PROMPT q # WaterfallFrame WHO_ARE_YOU 0 # rest" and "x \<noteq> []"
  shows "continueDialog (Str x) c
   = c\<lparr>user := (user c)\<lparr>name := Str x\<rparr>,
       stack := PromptFrame CITY_PROMPT ''What city are you from?'' # WaterfallFrame WHO_ARE_YOU 1 # rest,
       out := out c @ [''What city are you from?'']\<rparr>"
proof -
  obtain h t where x: "x = h # t" using assms(2) by (cases x) auto
  show ?thesis
    by (simp add: continueDialog.simps assms(1) x runStep_def promptForCity_def sendActivity_def)
qed

lemma continueDialog_city:
  assumes "stack c = [PromptFrame CITY_PROMPT q, WaterfallFrame WHO_ARE_YOU 1]" and "y \<noteq> []"
  shows "continueDialog (Str y) c = c\<lparr>user := (user c)\<lparr>city := Str y\<rparr>, stack := []\<rparr>"
proof -
  obtain h t where y: "y = h # t" using assms(2) by (cases y) auto
  show ?thesis
    by (simp add: continueDialog.simps assms(1) y runStep_def captureCity_def numeral_2_eq_2)
qed

lemma continueDialog_city_nested:
  assumes "stack c = PromptFrame CITY_PROMPT q # WaterfallFrame WHO_ARE_YOU 1 # PromptFrame p q' # rest"
    and "y \<noteq> []"
  shows "continueDialog (Str y) c
   = c\<lparr>user := (user c)\<lparr>city := Str y\<rparr>, stack := PromptFrame p q' # rest, out := out c @ [q']\<rparr>"
proof -
  obtain h t where y: "y = h # t" using assms(2) by (cases y) auto
  show ?thesis
    by (simp add: continueDialog.simps assms(1) y runStep_def captureCity_def numeral_2_eq_2
        sendActivity_def)
qed

section \<open>The notification turn\<close>

lemma done_notifies:
  assumes "w \<noteq> []" and "list_all is_digit w"
    and "map_of (jobs s) w = Some info" and "\<not> completed info" and "adapter e = Reachable"
    and "convs s (conv_key (reference info)) = Some st"
  shows "notified (on_turn e (done_message r w) s)
           = out (if truthy (city (users s (user_key (reference info))))
                  then beginDialog HELLO_USER
                         \<lparr>stack = st, user = users s (user_key (reference info)), out = [notice w]\<rparr>
                  else beginDialog WHO_ARE_YOU
                         \<lparr>stack = st, user = users s (user_key (reference info)), out = [notice w]\<rparr>)"
    and "convs (storage (on_turn e (done_message r w) s)) (conv_key (reference info))
           = Some (stack (if truthy (city (users s (user_key (reference info))))
                  then beginDialog HELLO_USER
                         \<lparr>stack = st, user = users s (user_key (reference info)), out = [notice w]\<rparr>
                  else beginDialog WHO_ARE_YOU
                         \<lparr>stack = st, user = users s (user_key (reference info)), out = [notice w]\<rparr>))"
    and "users (storage (on_turn e (done_message r w) s)) = users s"
    and "jobs (storage (on_turn e (done_message r w) s))
           = AList.map_entry w (\<lambda>info. info\<lparr>completed := True\<rparr>) (jobs s)"
    and "thrown (on_turn e (done_message r w) s) = None"
proof -
  have c: "completeJob (adapter e) (Str w) (new_turn s)
           = reply ''Job completed. Notification sent.''
               (notification (Str w) (reference info) ((new_turn s)\<lparr>resumed := Some (reference info)\<rparr>))"
    using assms(3,4,5) completeJob_reachable[of "new_turn s" "Str w" info] by simp
  show "notified (on_turn e (done_message r w) s)
           = out (if truthy (city (users s (user_key (reference info))))
                  then beginDialog HELLO_USER
                         \<lparr>stack = st, user = users s (user_key (reference info)), out = [notice w]\<rparr>
                  else beginDialog WHO_ARE_YOU
                         \<lparr>stack = st, user = users s (user_key (reference info)), out = [notice w]\<rparr>)"
    unfolding on_turn_done_message[OF assms(1,2)] c
    by (simp add: Let_def notification_def assms(6) notice_def)
  show "convs (storage (on_turn e (done_message r w) s)) (conv_key (reference info))
           = Some (stack (if truthy (city (users s (user_key (reference info))))
                  then beginDialog HELLO_USER
                         \<lparr>stack = st, user = users s (user_key (reference info)), out = [notice w]\<rparr>
                  else beginDialog WHO_ARE_YOU
                         \<lparr>stack = st, user = users s (user_key (reference info)), out = [notice w]\<rparr>))"
    unfolding on_turn_done_message[OF assms(1,2)] c
    using assms(6)
    by (cases "convs s (conv_key r)")
       (auto simp: Let_def notification_def notice_def)
  show "users (storage (on_turn e (done_message r w) s)) = users s"
    unfolding on_turn_done_message[OF assms(1,2)] c by (simp add: Let_def)
  show "jobs (storage (on_turn e (done_message r w) s))
           = AList.map_entry w (\<lambda>info. info\<lparr>completed := True\<rparr>) (jobs s)"
    using first_done[OF assms(1-5), of r] by simp
  show "thrown (on_turn e (done_message r w) s) = None"
    using first_done[OF assms(1-5), of r] by simp
qed

section \<open>Answering the prompts\<close>

lemma answer_name:
  assumes "classify (Some x) = UNRECOGNIZED" and "x \<noteq> []"
    and "convs s (conv_key u)
         = Some (PromptFrame NAME_PROMPT q # WaterfallFrame WHO_ARE_YOU 0 # rest)"
  shows "sent (on_turn e (message u x) s) = [''What city are you from?'']"
    and "users (storage (on_turn e (message u x) s))
         = (users s)(user_key u := (users s (user_key u))\<lparr>name := Str x\<rparr>)"
    and "convs (storage (on_turn e (message u x) s))
         = (convs s)(conv_key u := Some (PromptFrame CITY_PROMPT ''What city are you from?''
                                          # WaterfallFrame WHO_ARE_YOU 1 # rest))"
    and "jobs (storage (on_turn e (message u x) s)) = jobs s"
    and "thrown (on_turn e (message u x) s) = None"
proof -
  have d: "continueDialog (Str x) (dialog_context u s)
           = (dialog_context u s)\<lparr>user := (user (dialog_context u s))\<lparr>name := Str x\<rparr>,
               stack := PromptFrame CITY_PROMPT ''What city are you from?''
                        # WaterfallFrame WHO_ARE_YOU 1 # rest,
               out := out (dialog_context u s) @ [''What city are you from?'']\<rparr>"
    by (rule continueDialog_name[OF _ assms(2)]) (simp add: dialog_context_def assms(3))
  note t = on_turn_unrecognized[OF assms(1), of e u s, folded message_def, unfolded text_value_simps]
  show "sent (on_turn e (message u x) s) = [''What city are you from?'']"
    unfolding t d by (simp add: dialog_context_def)
  show "users (storage (on_turn e (message u x) s))
         = (users s)(user_key u := (users s (user_key u))\<lparr>name := Str x\<rparr>)"
    unfolding t d by (simp add: dialog_context_def)
  show "convs (storage (on_turn e (message u x) s))
         = (convs s)(conv_key u := Some (PromptFrame CITY_PROMPT ''What city are you from?''
                                          # WaterfallFrame WHO_ARE_YOU 1 # rest))"
    unfolding t d by (simp add: dialog_context_def assms(3))
  show "jobs (storage (on_turn e (message u x) s)) = jobs s"
    unfolding t by simp
  show "thrown (on_turn e (message u x) s) = None"
    unfolding t by simp
qed

lemma answer_city:
  assumes "classify (Some y) = UNRECOGNIZED" and "y \<noteq> []"
    and "convs s (conv_key u) = Some [PromptFrame CITY_PROMPT q, WaterfallFrame WHO_ARE_YOU 1]"
  shows "sent (on_turn e (message u y) s) = []"
    and "users (storage (on_turn e (message u y) s))
         = (users s)(user_key u := (users s (user_key u))\<lparr>city := Str y\<rparr>)"
    and "convs (storage (on_turn e (message u y) s)) = (convs s)(conv_key u := Some [])"
    and "jobs (storage (on_turn e (message u y) s)) = jobs s"
    and "thrown (on_turn e (message u y) s) = None"
proof -
  have d: "continueDialog (Str y) (dialog_context u s)
           = (dialog_context u s)\<lparr>user := (user (dialog_context u s))\<lparr>city := Str y\<rparr>, stack := []\<rparr>"
    by (rule continueDialog_city[OF _ assms(2)]) (simp add: dialog_context_def assms(3))
  note t = on_turn_unrecognized[OF assms(1), of e u s, folded message_def, unfolded text_value_simps]
  show "sent (on_turn e (message u y) s) = []"
    unfolding t d by (simp add: dialog_context_def)
  show "users (storage (on_turn e (message u y) s))
         = (users s)(user_key u := (users s (user_key u))\<lparr>city := Str y\<rparr>)"
    unfolding t d by (simp add: dialog_context_def)
  show "convs (storage (on_turn e (message u y) s)) = (convs s)(conv_key u := Some [])"
    unfolding t d by (simp add: dialog_context_def assms(3))
  show "jobs (storage (on_turn e (message u y) s)) = jobs s"
    unfolding t by simp
  show "thrown (on_turn e (message u y) s) = None"
    unfolding t by simp
qed

text \<open>The city prompt answered while another prompt waits underneath: that one asks again.\<close>

lemma answer_city_nested:
  assumes "classify (Some y) = UNRECOGNIZED" and "y \<noteq> []"
    and "convs s (conv_key u)
         = Some (PromptFrame CITY_PROMPT q # WaterfallFrame WHO_ARE_YOU 1 # PromptFrame p q' # rest)"
  shows "sent (on_turn e (message u y) s) = [q']"
    and "users (storage (on_turn e (message u y) s))
         = (users s)(user_key u := (users s (user_key u))\<lparr>city := Str y\<rparr>)"
    and "convs (storage (on_turn e (message u y) s))
         = (convs s)(conv_key u := Some (PromptFrame p q' # rest))"
    and "jobs (storage (on_turn e (message u y) s)) = jobs s"
proof -
  have d: "continueDialog (Str y) (dialog_context u s)
           = (dialog_context u s)\<lparr>user := (user (dialog_context u s))\<lparr>city := Str y\<rparr>,
               stack := PromptFrame p q' # rest, out := out (dialog_context u s) @ [q']\<rparr>"
    by (rule continueDialog_city_nested[OF _ assms(2)]) (simp add: dialog_context_def assms(3))
  note t = on_turn_unrecognized[OF assms(1), of e u s, folded message_def, unfolded text_value_simps]
  show "sent (on_turn e (message u y) s) = [q']"
    unfolding t d by (simp add: dialog_context_def)
  show "users (storage (on_turn e (message u y) s))
         = (users s)(user_key u := (users s (user_key u))\<lparr>city := Str y\<rparr>)"
    unfolding t d by (simp add: dialog_context_def)
  show "convs (storage (on_turn e (message u y) s))
         = (convs s)(conv_key u := Some (PromptFrame p q' # rest))"
    unfolding t d by (simp add: dialog_context_def assms(3))
  show "jobs (storage (on_turn e (message u y) s)) = jobs s"
    unfolding t by simp
qed

section \<open>Stored dialog stacks are settled\<close>

lemma settled_resumeDialog: "settled (stack (resumeDialog st result c))"
proof (induction st result c rule: resumeDialog.induct)
  case (1 result c)
  show ?case by simp
next
  case (2 p q rest result c)
  show ?case by (simp add: sendActivity_def)
next
  case (3 d i rest result c)
  obtain c' res where s: "runStep d (Suc i) result c = (c', res)"
    by (cases "runStep d (Suc i) result c")
  show ?case
  proof (cases res)
    case (BeginPrompt p q)
    then show ?thesis using s by (simp add: sendActivity_def)
  next
    case (EndDialog r)
    then show ?thesis using s 3 by simp
  qed
qed

lemma settled_beginDialog: "settled (stack (beginDialog d c))"
proof -
  obtain c' res where s: "runStep d 0 Undefined c = (c', res)"
    by (cases "runStep d 0 Undefined c")
  show ?thesis
    by (cases res) (simp_all add: beginDialog_def s sendActivity_def settled_resumeDialog)
qed

lemma settled_continueDialog: "settled (stack c) \<Longrightarrow> settled (stack (continueDialog v c))"
  by (auto simp: continueDialog.simps sendActivity_def settled_resumeDialog
      split: list.splits frame.splits js_value.splits)

lemma settled_cases: "settled st \<Longrightarrow> st = [] \<or> (\<exists>p q rest. st = PromptFrame p q # rest)"
  by (cases st rule: settled.cases) auto

lemma settled_completeJob:
  assumes "\<forall>k st. convs (storage t) k = Some st \<longrightarrow> settled st"
  shows "\<forall>k st. convs (storage (completeJob ad v t)) k = Some st \<longrightarrow> settled st"
  using assms settled_beginDialog
  by (cases ad)
     (auto simp: completeJob_def continueConversation_def notification_def Let_def save_conv_def
           split: option.splits if_splits)

lemma settled_dispatch:
  assumes "\<forall>k st. convs (storage t) k = Some st \<longrightarrow> settled st"
  shows "\<forall>k st. convs (storage (dispatch e r u t)) k = Some st \<longrightarrow> settled st"
  using assms settled_completeJob[OF assms] by (simp add: dispatch_def Let_def)

lemma settled_on_turn:
  assumes "\<forall>k st. convs s k = Some st \<longrightarrow> settled st"
  shows "\<forall>k st. convs (storage (on_turn e a s)) k = Some st \<longrightarrow> settled st"
proof (cases "kind a")
  case (Message input)
  let ?t1 = "dispatch e (source a) (toLowerCase (trim (or_empty input))) (new_turn s)"
  have i: "\<forall>k st. convs (storage ?t1) k = Some st \<longrightarrow> settled st"
    by (rule settled_dispatch) (use assms in simp)
  have l: "settled (stack_of (convs s (conv_key (source a))))"
    using assms by (cases "convs s (conv_key (source a))") (auto simp del: split_paired_All)
  have c: "settled (stack (continueDialog v
             \<lparr>stack = stack_of (convs s (conv_key (source a))), user = p, out = []\<rparr>))" for v p
    by (rule settled_continueDialog) (use l in simp)
  show ?thesis
    using Message i l c by (auto simp: on_turn_def Let_def)
next
  case (Event nm v)
  have "\<forall>k st. convs (storage (completeJob (adapter e) v (new_turn s))) k = Some st \<longrightarrow> settled st"
    by (rule settled_completeJob) (use assms in simp)
  then show ?thesis
    using Event assms by (auto simp: on_turn_def Let_def)
next
  case (ConversationUpdate ms)
  then show ?thesis using assms by (auto simp: on_turn_def Let_def split: list.splits)
next
  case OtherActivity
  then show ?thesis using assms by (simp add: on_turn_def)
qed

lemma settled_run_turns:
  assumes "\<forall>k st. convs s k = Some st \<longrightarrow> settled st"
  shows "\<forall>k st. convs (run_turns s turns) k = Some st \<longrightarrow> settled st"
  using assms
proof (induction turns arbitrary: s)
  case Nil
  then show ?case by simp
next
  case (Cons q turns)
  obtain e a where q: "q = (e, a)" by (cases q)
  show ?case
    unfolding q run_turns.simps
    by (rule Cons.IH[OF settled_on_turn[OF Cons.prems]])
qed

lemma settled_reachable:
  assumes "convs (run_turns empty_store turns) k = Some st"
  shows "settled st"
proof -
  have "\<forall>k st. convs empty_store k = Some st \<longrightarrow> settled st"
    by (simp add: empty_store_def)
  from settled_run_turns[OF this, of turns] assms show ?thesis by blast
qed

text \<open>
  The stored dialog state of a job's conversation, in a storage that turns have produced
  from the empty one.
\<close>

lemma job_stack_reachable:
  assumes "map_of (jobs (run_turns empty_store turns)) w = Some info"
  shows "convs (run_turns empty_store turns) (conv_key (reference info))
           = Some (dialog_stacks (run_turns empty_store turns) (conv_key (reference info)))"
    and "settled (dialog_stacks (run_turns empty_store turns) (conv_key (reference info)))"
proof -
  have "(w, info) \<in> set (jobs (run_turns empty_store turns))"
    using assms by (rule map_of_SomeD)
  then have "convs (run_turns empty_store turns) (conv_key (reference info)) \<noteq> None"
    using job_convs_reachable[of turns] by force
  then obtain st where st: "convs (run_turns empty_store turns) (conv_key (reference info)) = Some st"
    by blast
  show "convs (run_turns empty_store turns) (conv_key (reference info))
           = Some (dialog_stacks (run_turns empty_store turns) (conv_key (reference info)))"
    by (simp add: dialog_stacks_def st)
  show "settled (dialog_stacks (run_turns empty_store turns) (conv_key (reference info)))"
    using settled_reachable[OF st] by (simp add: dialog_stacks_def st)
qed

section \<open>The first activity after the notice\<close>

lemma notified_first:
  assumes "w \<noteq> []" and "list_all is_digit w"
    and "map_of (jobs s) w = Some info" and "\<not> completed info" and "adapter e = Reachable"
    and "convs s (conv_key (reference info)) = Some st" and "settled st"
  shows "take 2 (notified (on_turn e (done_message r w) s))
           = [notice w, if truthy (city (users s (user_key (reference info))))
                        then greeting (users s (user_key (reference info)))
                        else ''What is your name?'']"
    and "\<not> truthy (city (users s (user_key (reference info)))) \<Longrightarrow>
         convs (storage (on_turn e (done_message r w) s)) (conv_key (reference info))
           = Some (awaiting_name @ st)"
  unfolding done_notifies(1,2)[OF assms(1-6)]
  using assms(7)
  by (cases st rule: settled.cases;
      simp add: beginDialog_HELLO_USER beginDialog_WHO_ARE_YOU sendActivity_def greeting_def
        awaiting_name_def)+

text \<open>
  The two answers to WHO_ARE_YOU begun on a settled stack: the profile holds them, and
  the conversation is back to the stack underneath.
\<close>

lemma two_answers_profile:
  assumes "x \<noteq> []" and "y \<noteq> []"
    and "classify (Some x) = UNRECOGNIZED" and "classify (Some y) = UNRECOGNIZED"
    and "convs s1 (conv_key u) = Some (awaiting_name @ st)" and "settled st"
  shows "users (storage (on_turn e2 (message u y) (storage (on_turn e1 (message u x) s1))))
           (user_key u) = (users s1 (user_key u))\<lparr>name := Str x, city := Str y\<rparr>"
    and "convs (storage (on_turn e2 (message u y) (storage (on_turn e1 (message u x) s1))))
           (conv_key u) = Some st"
    and "jobs (storage (on_turn e2 (message u y) (storage (on_turn e1 (message u x) s1)))) = jobs s1"
proof -
  let ?s2 = "storage (on_turn e1 (message u x) s1)"
  let ?s3 = "storage (on_turn e2 (message u y) ?s2)"
  have a: "convs s1 (conv_key u)
           = Some (PromptFrame NAME_PROMPT ''What is your name?'' # WaterfallFrame WHO_ARE_YOU 0 # st)"
    using assms(5) by (simp add: awaiting_name_def)
  note n = answer_name[OF assms(3,1) a, of e1]
  have c2: "convs ?s2 (conv_key u)
            = Some (PromptFrame CITY_PROMPT ''What city are you from?'' # WaterfallFrame WHO_ARE_YOU 1 # st)"
    by (simp add: n(3))
  have "users ?s3 (user_key u) = (users s1 (user_key u))\<lparr>name := Str x, city := Str y\<rparr>
        \<and> convs ?s3 (conv_key u) = Some st \<and> jobs ?s3 = jobs s1"
    using settled_cases[OF assms(6)]
  proof (elim disjE exE)
    assume e: "st = []"
    note c = answer_city[OF assms(4,2) c2[unfolded e], of e2]
    show ?thesis by (simp add: c(2,3,4) n(2,4) e)
  next
    fix p q rest
    assume e: "st = PromptFrame p q # rest"
    note c = answer_city_nested[OF assms(4,2) c2[unfolded e], of e2]
    show ?thesis by (simp add: c(2,3,4) n(2,4) e)
  qed
  then show "users ?s3 (user_key u) = (users s1 (user_key u))\<lparr>name := Str x, city := Str y\<rparr>"
    and "convs ?s3 (conv_key u) = Some st" and "jobs ?s3 = jobs s1"
    by simp_all
qed

section \<open>The worked examples, continued\<close>

lemma run_turn_storage:
  assumes "map_of (jobs s) (show_nat (getMilliseconds (now e))) = None"
  shows "convs (storage (on_turn e (message r ''run'') s))
           = (convs s)(conv_key r := Some (stack_of (convs s (conv_key r))))"
    and "users (storage (on_turn e (message r ''run'') s)) = users s"
  using assms
  by (cases "convs s (conv_key r)"; simp add: on_turn_run Let_def createJob_sent fun_eq_iff)+

lemma one_job_store_alice:
  "convs one_job_store (conv_key alice) = Some []"
  "users one_job_store (user_key alice) = empty_profile"
  unfolding one_job_store_def
  by (simp_all add: run_turn_storage empty_store_def)

lemma two_job_store_alice:
  "jobs two_job_store = [(''5'', \<lparr>completed = False, reference = alice\<rparr>),
                         (''20'', \<lparr>completed = False, reference = alice\<rparr>)]"
  "convs two_job_store (conv_key alice) = Some []"
  "users two_job_store (user_key alice) = empty_profile"
proof -
  have k: "show_nat (getMilliseconds (now (reachable_at 12020))) = ''20''"
    by (simp add: reachable_at_def getMilliseconds_def show_nat.simps digit_char_def)
  have t: "two_job_store = storage (on_turn (reachable_at 12020) (message alice ''run'') one_job_store)"
    by (simp add: two_job_store_def one_job_store_def)
  have n: "map_of (jobs one_job_store) (show_nat (getMilliseconds (now (reachable_at 12020)))) = None"
    unfolding k by (simp add: one_job_store_jobs)
  show "jobs two_job_store = [(''5'', \<lparr>completed = False, reference = alice\<rparr>),
                         (''20'', \<lparr>completed = False, reference = alice\<rparr>)]"
    unfolding t using n by (simp add: on_turn_run_jobs k one_job_store_jobs)
  show "convs two_job_store (conv_key alice) = Some []"
    unfolding t by (simp add: run_turn_storage[OF n] one_job_store_alice)
  show "users two_job_store (user_key alice) = empty_profile"
    unfolding t by (simp add: run_turn_storage[OF n] one_job_store_alice)
qed

lemma example_answers:
  "''Ada'' \<noteq> []" "''Seattle'' \<noteq> []"
  "classify (Some ''Ada'') = UNRECOGNIZED" "classify (Some ''Seattle'') = UNRECOGNIZED"
  by (simp_all add: classify_eval)

lemma three_job_store_alice:
  "jobs three_job_store = [(''5'', \<lparr>completed = False, reference = alice\<rparr>),
                           (''20'', \<lparr>completed = False, reference = alice\<rparr>),
                           (''30'', \<lparr>completed = False, reference = alice\<rparr>)]"
  "convs three_job_store (conv_key alice) = Some []"
  "users three_job_store (user_key alice) = empty_profile"
proof -
  have k: "show_nat (getMilliseconds (now (reachable_at 12030))) = ''30''"
    by (simp add: reachable_at_def getMilliseconds_def show_nat.simps digit_char_def)
  have t: "three_job_store = storage (on_turn (reachable_at 12030) (message alice ''run'') two_job_store)"
    by (simp add: three_job_store_def two_job_store_def)
  have n: "map_of (jobs two_job_store) (show_nat (getMilliseconds (now (reachable_at 12030)))) = None"
    unfolding k by (simp add: two_job_store_alice)
  show "jobs three_job_store = [(''5'', \<lparr>completed = False, reference = alice\<rparr>),
                           (''20'', \<lparr>completed = False, reference = alice\<rparr>),
                           (''30'', \<lparr>completed = False, reference = alice\<rparr>)]"
    unfolding t using n by (simp add: on_turn_run_jobs k two_job_store_alice)
  show "convs three_job_store (conv_key alice) = Some []"
    unfolding t by (simp add: run_turn_storage[OF n] two_job_store_alice)
  show "users three_job_store (user_key alice) = empty_profile"
    unfolding t by (simp add: run_turn_storage[OF n] two_job_store_alice)
qed

lemma example_ids:
  "''20'' \<noteq> []" "list_all is_digit ''20''" "''30'' \<noteq> []" "list_all is_digit ''30''"
  by (simp_all add: is_digit_def)

lemma onboarded_store_alice:
  "jobs onboarded_store = [(''5'', \<lparr>completed = True, reference = alice\<rparr>),
                           (''20'', \<lparr>completed = False, reference = alice\<rparr>)]"
  "convs onboarded_store (conv_key alice) = Some []"
  "users onboarded_store (user_key alice) = \<lparr>name = Str ''Ada'', city = Str ''Seattle''\<rparr>"
proof -
  let ?i = "\<lparr>completed = False, reference = alice\<rparr>"
  let ?s1 = "storage (on_turn (reachable_at 13000) (done_message bob ''5'') two_job_store)"
  let ?s2 = "storage (on_turn (reachable_at 15000) (message alice ''Ada'') ?s1)"
  let ?s3 = "storage (on_turn (reachable_at 16000) (message alice ''Seattle'') ?s2)"
  have i: "onboarded_store = ?s3" by (simp add: onboarded_store_def)
  have a: "adapter (reachable_at 13000) = Reachable" by (simp add: reachable_at_def)
  have n: "\<not> completed ?i" by simp
  have j0: "map_of (jobs two_job_store) ''5'' = Some ?i" by (simp add: two_job_store_alice)
  have c0: "convs two_job_store (conv_key (reference ?i)) = Some []"
    by (simp add: two_job_store_alice)
  have nc: "\<not> truthy (city (users two_job_store (user_key (reference ?i))))"
    by (simp add: two_job_store_alice empty_profile_def)
  have se: "settled []" by simp
  note n1 = done_notifies[OF digits_5 j0 n a c0, of bob]
  have c1: "convs ?s1 (conv_key alice) = Some (awaiting_name @ [])"
    using notified_first(2)[OF digits_5 j0 n a c0 se nc, of bob] by simp
  note o = two_answers_profile[OF example_answers c1 se]
  show "jobs onboarded_store = [(''5'', \<lparr>completed = True, reference = alice\<rparr>),
                           (''20'', \<lparr>completed = False, reference = alice\<rparr>)]"
    unfolding i o(3) n1(4) by (simp add: two_job_store_alice)
  show "convs onboarded_store (conv_key alice) = Some []"
    unfolding i by (rule o(2))
  show "users onboarded_store (user_key alice) = \<lparr>name = Str ''Ada'', city = Str ''Seattle''\<rparr>"
    unfolding i o(1) n1(3) by (simp add: two_job_store_alice empty_profile_def)
qed

section \<open>Two notifications before the first answer\<close>

text \<open>
  Alice has three jobs and no profile.  Bob completes job 5: Alice is asked for her
  name.  Bob completes job 20 before she answers: WHO_ARE_YOU is begun again, on top of
  the waiting prompt.  Her answers \<open>Ada\<close> and \<open>Seattle\<close> go to the dialog on top; when it
  ends, the prompt underneath asks for the name again and stays on the stack.
\<close>

lemma interrupted_store_alice:
  "jobs interrupted_store = [(''5'', \<lparr>completed = True, reference = alice\<rparr>),
                             (''20'', \<lparr>completed = True, reference = alice\<rparr>),
                             (''30'', \<lparr>completed = False, reference = alice\<rparr>)]"
  "convs interrupted_store (conv_key alice) = Some awaiting_name"
  "users interrupted_store (user_key alice) = \<lparr>name = Str ''Ada'', city = Str ''Seattle''\<rparr>"
proof -
  let ?i = "\<lparr>completed = False, reference = alice\<rparr>"
  let ?s1 = "storage (on_turn (reachable_at 13000) (done_message bob ''5'') three_job_store)"
  let ?s2 = "storage (on_turn (reachable_at 14000) (done_message bob ''20'') ?s1)"
  let ?s3 = "storage (on_turn (reachable_at 15000) (message alice ''Ada'') ?s2)"
  let ?s4 = "storage (on_turn (reachable_at 16000) (message alice ''Seattle'') ?s3)"
  have i: "interrupted_store = ?s4" by (simp add: interrupted_store_def)
  have a: "adapter (reachable_at 13000) = Reachable" "adapter (reachable_at 14000) = Reachable"
    by (simp_all add: reachable_at_def)
  have n: "\<not> completed ?i" by simp
  have j0: "map_of (jobs three_job_store) ''5'' = Some ?i" by (simp add: three_job_store_alice)
  have c0: "convs three_job_store (conv_key (reference ?i)) = Some []"
    by (simp add: three_job_store_alice)
  note n1 = done_notifies[OF digits_5 j0 n a(1) c0, of bob]
  have u1: "users ?s1 (user_key alice) = empty_profile"
    unfolding n1(3) by (rule three_job_store_alice(3))
  have c1: "convs ?s1 (conv_key (reference ?i)) = Some awaiting_name"
    unfolding n1(2)
    by (simp add: three_job_store_alice empty_profile_def beginDialog_WHO_ARE_YOU awaiting_name_def)
  have j1: "jobs ?s1 = [(''5'', \<lparr>completed = True, reference = alice\<rparr>), (''20'', ?i), (''30'', ?i)]"
    unfolding n1(4) by (simp add: three_job_store_alice)
  have m1: "map_of (jobs ?s1) ''20'' = Some ?i" by (simp add: j1)
  note n2 = done_notifies[OF example_ids(1,2) m1 n a(2) c1, of bob]
  have u2: "users ?s2 (user_key alice) = empty_profile"
    unfolding n2(3) by (rule u1)
  have c2: "convs ?s2 (conv_key alice)
            = Some (PromptFrame NAME_PROMPT ''What is your name?'' # WaterfallFrame WHO_ARE_YOU 0
                    # awaiting_name)"
    using n2(2) u1 by (simp add: empty_profile_def beginDialog_WHO_ARE_YOU)
  have j2: "jobs ?s2 = [(''5'', \<lparr>completed = True, reference = alice\<rparr>),
                        (''20'', \<lparr>completed = True, reference = alice\<rparr>), (''30'', ?i)]"
    unfolding n2(4) j1 by simp
  note n3 = answer_name[OF example_answers(3,1) c2, of "reachable_at 15000"]
  have c3: "convs ?s3 (conv_key alice)
            = Some (PromptFrame CITY_PROMPT ''What city are you from?'' # WaterfallFrame WHO_ARE_YOU 1
                    # PromptFrame NAME_PROMPT ''What is your name?'' # [WaterfallFrame WHO_ARE_YOU 0])"
    unfolding n3(3) by (simp add: awaiting_name_def)
  have u3: "users ?s3 (user_key alice) = \<lparr>name = Str ''Ada'', city = Undefined\<rparr>"
    unfolding n3(2) using u2 by (simp add: empty_profile_def)
  note n4 = answer_city_nested[OF example_answers(4,2) c3, of "reachable_at 16000"]
  show "jobs interrupted_store = [(''5'', \<lparr>completed = True, reference = alice\<rparr>),
                             (''20'', \<lparr>completed = True, reference = alice\<rparr>),
                             (''30'', \<lparr>completed = False, reference = alice\<rparr>)]"
    unfolding i n4(4) n3(4) by (rule j2)
  show "convs interrupted_store (conv_key alice) = Some awaiting_name"
    unfolding i n4(3) by (simp add: awaiting_name_def)
  show "users interrupted_store (user_key alice) = \<lparr>name = Str ''Ada'', city = Str ''Seattle''\<rparr>"
    unfolding i n4(2) using u3 by simp
qed

section \<open>Which dialog the notification begins\<close>

lemma notified_by_city:
  assumes "w \<noteq> []" and "list_all is_digit w"
    and "map_of (jobs s) w = Some info" and "\<not> completed info" and "adapter e = Reachable"
    and "convs s (conv_key (reference info)) = Some []"
  shows "notified (on_turn e (done_message r w) s)
           = (if truthy (city (users s (user_key (reference info))))
              then [notice w, greeting (users s (user_key (reference info)))]
              else [notice w, ''What is your name?''])"
    and "convs (storage (on_turn e (done_message r w) s)) (conv_key (reference info))
           = Some (if truthy (city (users s (user_key (reference info)))) then [] else awaiting_name)"
  unfolding done_notifies(1,2)[OF assms]
  by (simp_all add: beginDialog_HELLO_USER_empty beginDialog_WHO_ARE_YOU greeting_def awaiting_name_def)

lemma two_answers:
  assumes "x \<noteq> []" and "y \<noteq> []"
    and "classify (Some x) = UNRECOGNIZED" and "classify (Some y) = UNRECOGNIZED"
    and "convs s1 (conv_key u) = Some awaiting_name"
  shows "sent (on_turn e1 (message u x) s1) = [''What city are you from?'']"
    and "sent (on_turn e2 (message u y) (storage (on_turn e1 (message u x) s1))) = []"
    and "convs (storage (on_turn e2 (message u y) (storage (on_turn e1 (message u x) s1))))
           (conv_key u) = Some []"
    and "users (storage (on_turn e2 (message u y) (storage (on_turn e1 (message u x) s1))))
           (user_key u) = (users s1 (user_key u))\<lparr>name := Str x, city := Str y\<rparr>"
    and "jobs (storage (on_turn e2 (message u y) (storage (on_turn e1 (message u x) s1)))) = jobs s1"
proof -
  let ?s2 = "storage (on_turn e1 (message u x) s1)"
  note a = assms(5)[unfolded awaiting_name_def]
  note n = answer_name[OF assms(3,1) a]
  have c2: "convs ?s2 (conv_key u)
            = Some [PromptFrame CITY_PROMPT ''What city are you from?'', WaterfallFrame WHO_ARE_YOU 1]"
    by (simp add: n(3))
  note c = answer_city[OF assms(4,2) c2]
  show "sent (on_turn e1 (message u x) s1) = [''What city are you from?'']" by (rule n(1))
  show "sent (on_turn e2 (message u y) ?s2) = []" by (rule c(1))
  show "convs (storage (on_turn e2 (message u y) ?s2)) (conv_key u) = Some []"
    by (simp add: c(3))
  show "users (storage (on_turn e2 (message u y) ?s2)) (user_key u)
        = (users s1 (user_key u))\<lparr>name := Str x, city := Str y\<rparr>"
    by (simp add: c(2) n(2))
  show "jobs (storage (on_turn e2 (message u y) ?s2)) = jobs s1"
    by (simp add: c(4) n(4))
qed

text \<open>
  C5, as the claim states it, fails.  In the storage above Alice's city is set, and a
  prompt is waiting in her conversation.  When Bob completes job 30, HELLO_USER sends
  the greeting and ends, and the prompt underneath asks again: the notification turn
  sends a prompt after the greeting.
\<close>

theorem greeting_then_prompt_counterexample:
  "truthy (city (users interrupted_store (user_key alice)))
   \<and> notified (on_turn (reachable_at 17000) (done_message bob ''30'') interrupted_store)
       = [''Your queued job 30 just completed.'', ''Hello, Ada from Seattle'',
          ''What is your name?'']"
proof -
  let ?i = "\<lparr>completed = False, reference = alice\<rparr>"
  have a: "adapter (reachable_at 17000) = Reachable" by (simp add: reachable_at_def)
  have n: "\<not> completed ?i" by simp
  have j: "map_of (jobs interrupted_store) ''30'' = Some ?i"
    by (simp add: interrupted_store_alice)
  have c: "convs interrupted_store (conv_key (reference ?i)) = Some awaiting_name"
    by (simp add: interrupted_store_alice)
  show ?thesis
    unfolding done_notifies(1)[OF example_ids(3,4) j n a c]
    by (simp add: interrupted_store_alice beginDialog_HELLO_USER awaiting_name_def
        sendActivity_def notice_def)
qed

text \<open>
  C5, amended.  In every storage that turns have produced from the empty one, when a
  \<open>done\<close> completes a job, the turn on the stored reference sends the completion notice
  and then begins a dialog chosen by \<open>user.city\<close> of the job's creator alone: the next
  activity is the greeting of HELLO_USER if the city is set, and the name prompt of
  WHO_ARE_YOU if not.  When no dialog is in progress in the job's conversation at that
  time: if the city is set, the greeting is the last activity, no prompt is sent and the
  dialog stack stays empty; if not, WHO_ARE_YOU waits for the name, the creator's next
  text gets the city prompt as its reply, and the text after that gets no reply and
  ends the dialog: two prompts, name then city, and no greeting.
\<close>

theorem dialog_chosen_by_city:
  assumes "w \<noteq> []" and "list_all is_digit w"
    and "map_of (jobs (run_turns empty_store turns)) w = Some info" and "\<not> completed info"
    and "adapter e = Reachable"
  shows "(let s = run_turns empty_store turns; u = reference info; p = users s (user_key u);
              s1 = storage (on_turn e (done_message r w) s)
          in take 2 (notified (on_turn e (done_message r w) s))
               = [notice w, if truthy (city p) then greeting p else ''What is your name?'']
           \<and> (dialog_stacks s (conv_key u) = [] \<longrightarrow>
                notified (on_turn e (done_message r w) s)
                  = (if truthy (city p) then [notice w, greeting p]
                     else [notice w, ''What is your name?''])
              \<and> convs s1 (conv_key u) = Some (if truthy (city p) then [] else awaiting_name)
              \<and> (\<not> truthy (city p) \<longrightarrow>
                   (\<forall>x y e1 e2. x \<noteq> [] \<longrightarrow> y \<noteq> [] \<longrightarrow>
                      classify (Some x) = UNRECOGNIZED \<longrightarrow> classify (Some y) = UNRECOGNIZED \<longrightarrow>
                        sent (on_turn e1 (message u x) s1) = [''What city are you from?'']
                      \<and> sent (on_turn e2 (message u y) (storage (on_turn e1 (message u x) s1))) = []
                      \<and> convs (storage (on_turn e2 (message u y)
                                  (storage (on_turn e1 (message u x) s1))))
                           (conv_key u) = Some []))))"
proof -
  let ?s = "run_turns empty_store turns"
  let ?u = "reference info"
  let ?p = "users ?s (user_key ?u)"
  let ?s1 = "storage (on_turn e (done_message r w) ?s)"
  note j = job_stack_reachable[OF assms(3)]
  have g: "take 2 (notified (on_turn e (done_message r w) ?s))
           = [notice w, if truthy (city ?p) then greeting ?p else ''What is your name?'']"
    by (rule notified_first(1)[OF assms j])
  have c: "notified (on_turn e (done_message r w) ?s)
             = (if truthy (city ?p) then [notice w, greeting ?p] else [notice w, ''What is your name?''])
         \<and> convs ?s1 (conv_key ?u) = Some (if truthy (city ?p) then [] else awaiting_name)
         \<and> (\<not> truthy (city ?p) \<longrightarrow>
              (\<forall>x y e1 e2. x \<noteq> [] \<longrightarrow> y \<noteq> [] \<longrightarrow>
                 classify (Some x) = UNRECOGNIZED \<longrightarrow> classify (Some y) = UNRECOGNIZED \<longrightarrow>
                   sent (on_turn e1 (message ?u x) ?s1) = [''What city are you from?'']
                 \<and> sent (on_turn e2 (message ?u y) (storage (on_turn e1 (message ?u x) ?s1))) = []
                 \<and> convs (storage (on_turn e2 (message ?u y)
                             (storage (on_turn e1 (message ?u x) ?s1))))
                      (conv_key ?u) = Some []))"
    if e: "dialog_stacks ?s (conv_key ?u) = []"
  proof -
    have c0: "convs ?s (conv_key ?u) = Some []" using j(1) e by simp
    note n = notified_by_city[OF assms c0, of r]
    have "sent (on_turn e1 (message ?u x) ?s1) = [''What city are you from?'']
        \<and> sent (on_turn e2 (message ?u y) (storage (on_turn e1 (message ?u x) ?s1))) = []
        \<and> convs (storage (on_turn e2 (message ?u y) (storage (on_turn e1 (message ?u x) ?s1))))
             (conv_key ?u) = Some []"
      if "\<not> truthy (city ?p)" and "x \<noteq> []" and "y \<noteq> []"
        and "classify (Some x) = UNRECOGNIZED" and "classify (Some y) = UNRECOGNIZED"
      for x y e1 e2
    proof -
      have a: "convs ?s1 (conv_key ?u) = Some awaiting_name" using n(2) that(1) by simp
      show ?thesis using two_answers(1,2,3)[OF that(2,3,4,5) a] by blast
    qed
    then show ?thesis using n by blast
  qed
  show ?thesis
    unfolding Let_def using g c by blast
qed

theorem dialog_chosen_by_city_witness:
  "''5'' \<noteq> [] \<and> list_all is_digit ''5''
   \<and> map_of (jobs one_job_store) ''5'' = Some \<lparr>completed = False, reference = alice\<rparr>
   \<and> adapter (reachable_at 7) = Reachable
   \<and> dialog_stacks one_job_store (conv_key alice) = []
   \<and> \<not> truthy (city (users one_job_store (user_key alice)))
   \<and> notified (on_turn (reachable_at 7) (done_message bob ''5'') one_job_store)
       = [''Your queued job 5 just completed.'', ''What is your name?'']
   \<and> sent (on_turn (reachable_at 8) (message alice ''Ada'')
         (storage (on_turn (reachable_at 7) (done_message bob ''5'') one_job_store)))
       = [''What city are you from?'']
   \<and> sent (on_turn (reachable_at 9) (message alice ''Seattle'')
         (storage (on_turn (reachable_at 8) (message alice ''Ada'')
           (storage (on_turn (reachable_at 7) (done_message bob ''5'') one_job_store)))))
       = []
   \<and> map_of (jobs onboarded_store) ''20'' = Some \<lparr>completed = False, reference = alice\<rparr>
   \<and> dialog_stacks onboarded_store (conv_key alice) = []
   \<and> truthy (city (users onboarded_store (user_key alice)))
   \<and> notified (on_turn (reachable_at 7) (done_message bob ''20'') onboarded_store)
       = [''Your queued job 20 just completed.'', ''Hello, Ada from Seattle'']
   \<and> convs (storage (on_turn (reachable_at 7) (done_message bob ''20'') onboarded_store))
        (conv_key alice) = Some []"
proof -
  let ?i = "\<lparr>completed = False, reference = alice\<rparr>"
  have s1: "run_turns empty_store [(reachable_at 12005, message alice ''run'')] = one_job_store"
    by (simp add: one_job_store_def)
  have s2: "run_turns empty_store
      [(reachable_at 12005, message alice ''run''), (reachable_at 12020, message alice ''run''),
       (reachable_at 13000, done_message bob ''5''), (reachable_at 15000, message alice ''Ada''),
       (reachable_at 16000, message alice ''Seattle'')] = onboarded_store"
    by (simp add: onboarded_store_def two_job_store_def)
  have a: "adapter (reachable_at 7) = Reachable" by (simp add: reachable_at_def)
  have n: "\<not> completed ?i" by simp
  have r: "reference ?i = alice" by simp
  have j1: "map_of (jobs (run_turns empty_store [(reachable_at 12005, message alice ''run'')])) ''5''
            = Some ?i"
    unfolding s1 by (rule job_5)
  have d1: "dialog_stacks one_job_store (conv_key alice) = []"
    by (simp add: dialog_stacks_def one_job_store_alice)
  have nc: "\<not> truthy (city (users one_job_store (user_key alice)))"
    by (simp add: one_job_store_alice empty_profile_def)
  note t1 = dialog_chosen_by_city[OF digits_5 j1 n a, of bob, unfolded Let_def s1 r,
      THEN conjunct2, THEN mp, OF d1]
  have p1: "notified (on_turn (reachable_at 7) (done_message bob ''5'') one_job_store)
            = [''Your queued job 5 just completed.'', ''What is your name?'']"
    using t1[THEN conjunct1] nc by (simp add: notice_def)
  note f = t1[THEN conjunct2, THEN conjunct2, rule_format, OF nc example_answers,
      of "reachable_at 8" "reachable_at 9"]
  have j2: "map_of (jobs (run_turns empty_store
      [(reachable_at 12005, message alice ''run''), (reachable_at 12020, message alice ''run''),
       (reachable_at 13000, done_message bob ''5''), (reachable_at 15000, message alice ''Ada''),
       (reachable_at 16000, message alice ''Seattle'')])) ''20'' = Some ?i"
    unfolding s2 by (simp add: onboarded_store_alice)
  have d2: "dialog_stacks onboarded_store (conv_key alice) = []"
    by (simp add: dialog_stacks_def onboarded_store_alice)
  have tc: "truthy (city (users onboarded_store (user_key alice)))"
    by (simp add: onboarded_store_alice)
  note t2 = dialog_chosen_by_city[OF example_ids(1,2) j2 n a, of bob, unfolded Let_def s2 r,
      THEN conjunct2, THEN mp, OF d2]
  have p2: "notified (on_turn (reachable_at 7) (done_message bob ''20'') onboarded_store)
            = [''Your queued job 20 just completed.'', ''Hello, Ada from Seattle'']"
    using t2[THEN conjunct1] tc by (simp add: notice_def greeting_def onboarded_store_alice)
  have q2: "convs (storage (on_turn (reachable_at 7) (done_message bob ''20'') onboarded_store))
              (conv_key alice) = Some []"
    using t2[THEN conjunct2, THEN conjunct1] tc by simp
  have k2: "map_of (jobs onboarded_store) ''20'' = Some ?i"
    by (simp add: onboarded_store_alice)
  show ?thesis
    using digits_5 job_5 a d1 nc p1 f k2 d2 tc p2 q2 by simp
qed

section \<open>Onboarding, then a greeting\<close>

text \<open>
  C6, as the claim states it, fails.  Alice had no stored city and has answered \<open>Ada\<close>
  and \<open>Seattle\<close>; her profile is as the claim says, but a second job of hers was
  completed before she answered, and the dialog stack of her conversation is not empty:
  the name prompt is waiting.
\<close>

theorem onboarding_counterexample:
  "\<not> truthy (city (users three_job_store (user_key alice)))
   \<and> users interrupted_store (user_key alice) = \<lparr>name = Str ''Ada'', city = Str ''Seattle''\<rparr>
   \<and> convs interrupted_store (conv_key alice) = Some awaiting_name
   \<and> dialog_stacks interrupted_store (conv_key alice) \<noteq> []"
  by (simp add: interrupted_store_alice three_job_store_alice empty_profile_def dialog_stacks_def
      awaiting_name_def)

text \<open>
  C6, amended.  In a storage that turns have produced from the empty one, a job's
  creator has no stored city.  The job is completed, and the creator answers the two
  prompts with the texts \<open>x\<close> and \<open>y\<close> (non-empty, and no commands; \<open>Ada\<close> and
  \<open>Seattle\<close> are such texts).  Then the stored profile is \<open>{name: x, city: y}\<close>, and the
  completion of any further job of that creator sends, after the notice, the greeting
  \<open>Hello, x from y\<close>.  When no dialog was in progress in the conversation as the job
  was completed, the dialog stack is empty after the two answers, and the greeting is
  the last activity of that later notification.
\<close>

theorem onboarding_then_greeting:
  assumes "w \<noteq> []" and "list_all is_digit w"
    and "map_of (jobs (run_turns empty_store turns)) w = Some info" and "\<not> completed info"
    and "adapter e = Reachable"
    and "\<not> truthy (city (users (run_turns empty_store turns) (user_key (reference info))))"
    and "x \<noteq> []" and "y \<noteq> []"
    and "classify (Some x) = UNRECOGNIZED" and "classify (Some y) = UNRECOGNIZED"
  shows "(let s = run_turns empty_store turns; u = reference info;
              s1 = storage (on_turn e (done_message r w) s);
              s2 = storage (on_turn e1 (message u x) s1);
              s3 = storage (on_turn e2 (message u y) s2)
          in users s3 (user_key u) = \<lparr>name = Str x, city = Str y\<rparr>
           \<and> (\<forall>w' info' e' r'. w' \<noteq> [] \<longrightarrow> list_all is_digit w' \<longrightarrow>
                 map_of (jobs s3) w' = Some info' \<longrightarrow> \<not> completed info' \<longrightarrow>
                 adapter e' = Reachable \<longrightarrow> reference info' = u \<longrightarrow>
                   take 2 (notified (on_turn e' (done_message r' w') s3))
                   = [notice w', ''Hello, '' @ x @ '' from '' @ y])
           \<and> (dialog_stacks s (conv_key u) = [] \<longrightarrow>
                convs s3 (conv_key u) = Some []
              \<and> (\<forall>w' info' e' r'. w' \<noteq> [] \<longrightarrow> list_all is_digit w' \<longrightarrow>
                    map_of (jobs s3) w' = Some info' \<longrightarrow> \<not> completed info' \<longrightarrow>
                    adapter e' = Reachable \<longrightarrow> reference info' = u \<longrightarrow>
                      notified (on_turn e' (done_message r' w') s3)
                      = [notice w', ''Hello, '' @ x @ '' from '' @ y])))"
proof -
  let ?s = "run_turns empty_store turns"
  let ?u = "reference info"
  let ?st = "dialog_stacks ?s (conv_key ?u)"
  let ?s1 = "storage (on_turn e (done_message r w) ?s)"
  let ?s2 = "storage (on_turn e1 (message ?u x) ?s1)"
  let ?s3 = "storage (on_turn e2 (message ?u y) ?s2)"
  note j = job_stack_reachable[OF assms(3)]
  have a: "convs ?s1 (conv_key ?u) = Some (awaiting_name @ ?st)"
    by (rule notified_first(2)[OF assms(1-5) j assms(6)])
  note o = two_answers_profile[OF assms(7-10) a j(2)]
  have us: "users ?s1 = users ?s"
    by (rule done_notifies(3)[OF assms(1-5) j(1)])
  have u3: "users ?s3 (user_key ?u) = \<lparr>name = Str x, city = Str y\<rparr>"
    unfolding o(1) us by simp
  have c3: "convs ?s3 (conv_key ?u) = Some ?st" by (rule o(2))
  have g: "take 2 (notified (on_turn e' (done_message r' w') ?s3))
           = [notice w', ''Hello, '' @ x @ '' from '' @ y]"
    if "w' \<noteq> []" and "list_all is_digit w'" and "map_of (jobs ?s3) w' = Some info'"
      and "\<not> completed info'" and "adapter e' = Reachable" and "reference info' = ?u"
    for w' info' e' r'
  proof -
    have c: "convs ?s3 (conv_key (reference info')) = Some ?st" using c3 that(6) by simp
    show ?thesis
      unfolding notified_first(1)[OF that(1-5) c j(2)] that(6) u3
      using assms(8) by (simp add: greeting_def)
  qed
  have h: "notified (on_turn e' (done_message r' w') ?s3)
           = [notice w', ''Hello, '' @ x @ '' from '' @ y]"
    if "?st = []" and "w' \<noteq> []" and "list_all is_digit w'" and "map_of (jobs ?s3) w' = Some info'"
      and "\<not> completed info'" and "adapter e' = Reachable" and "reference info' = ?u"
    for w' info' e' r'
  proof -
    have c: "convs ?s3 (conv_key (reference info')) = Some []" using c3 that(1,7) by simp
    show ?thesis
      unfolding notified_by_city(1)[OF that(2-6) c] that(7) u3
      using assms(8) by (simp add: greeting_def)
  qed
  have e3: "convs ?s3 (conv_key ?u) = Some []" if "?st = []"
    using c3 that by simp
  show ?thesis
    unfolding Let_def using u3 g h e3 by blast
qed

theorem onboarding_then_greeting_witness:
  "''5'' \<noteq> [] \<and> list_all is_digit ''5''
   \<and> map_of (jobs two_job_store) ''5'' = Some \<lparr>completed = False, reference = alice\<rparr>
   \<and> adapter (reachable_at 7) = Reachable
   \<and> dialog_stacks two_job_store (conv_key alice) = []
   \<and> \<not> truthy (city (users two_job_store (user_key alice)))
   \<and> ''Ada'' \<noteq> [] \<and> ''Seattle'' \<noteq> []
   \<and> classify (Some ''Ada'') = UNRECOGNIZED \<and> classify (Some ''Seattle'') = UNRECOGNIZED
   \<and> users (storage (on_turn (reachable_at 9) (message alice ''Seattle'')
         (storage (on_turn (reachable_at 8) (message alice ''Ada'')
           (storage (on_turn (reachable_at 7) (done_message bob ''5'') two_job_store))))))
        (user_key alice) = \<lparr>name = Str ''Ada'', city = Str ''Seattle''\<rparr>
   \<and> convs (storage (on_turn (reachable_at 9) (message alice ''Seattle'')
         (storage (on_turn (reachable_at 8) (message alice ''Ada'')
           (storage (on_turn (reachable_at 7) (done_message bob ''5'') two_job_store))))))
        (conv_key alice) = Some []
   \<and> notified (on_turn (reachable_at 10) (done_message bob ''20'')
        (storage (on_turn (reachable_at 9) (message alice ''Seattle'')
          (storage (on_turn (reachable_at 8) (message alice ''Ada'')
            (storage (on_turn (reachable_at 7) (done_message bob ''5'') two_job_store)))))))
       = [''Your queued job 20 just completed.'', ''Hello, Ada from Seattle'']"
proof -
  let ?i = "\<lparr>completed = False, reference = alice\<rparr>"
  let ?s1 = "storage (on_turn (reachable_at 7) (done_message bob ''5'') two_job_store)"
  let ?s3 = "storage (on_turn (reachable_at 9) (message alice ''Seattle'')
         (storage (on_turn (reachable_at 8) (message alice ''Ada'') ?s1)))"
  have s: "run_turns empty_store
      [(reachable_at 12005, message alice ''run''), (reachable_at 12020, message alice ''run'')]
      = two_job_store"
    by (simp add: two_job_store_def)
  have a: "adapter (reachable_at 7) = Reachable" "adapter (reachable_at 10) = Reachable"
    by (simp_all add: reachable_at_def)
  have n: "\<not> completed ?i" by simp
  have r: "reference ?i = alice" by simp
  have j: "map_of (jobs two_job_store) ''5'' = Some ?i" by (simp add: two_job_store_alice)
  have c: "convs two_job_store (conv_key (reference ?i)) = Some []"
    by (simp add: two_job_store_alice)
  have d: "dialog_stacks two_job_store (conv_key alice) = []"
    by (simp add: dialog_stacks_def two_job_store_alice)
  have nc: "\<not> truthy (city (users two_job_store (user_key (reference ?i))))"
    by (simp add: two_job_store_alice empty_profile_def)
  note t = onboarding_then_greeting[OF digits_5 j[folded s] n a(1) nc[folded s] example_answers,
      of bob "reachable_at 8" "reachable_at 9", unfolded Let_def s r]
  note t2 = t[THEN conjunct2, THEN conjunct2, THEN mp, OF d]
  have j1: "jobs ?s1 = AList.map_entry ''5'' (\<lambda>info. info\<lparr>completed := True\<rparr>) (jobs two_job_store)"
    by (rule done_notifies(4)[OF digits_5 j n a(1) c])
  have aw: "convs ?s1 (conv_key alice) = Some awaiting_name"
    using notified_by_city(2)[OF digits_5 j n a(1) c, of bob] nc by simp
  have j3: "jobs ?s3 = jobs ?s1"
    by (rule two_answers(5)[OF example_answers aw])
  have m: "map_of (jobs ?s3) ''20'' = Some ?i"
    unfolding j3 j1 by (simp add: two_job_store_alice)
  note g = t2[THEN conjunct2, rule_format, OF example_ids(1,2) m n a(2) r, of bob]
  show ?thesis
    using digits_5 j a(1) d nc example_answers t[THEN conjunct1] t2[THEN conjunct1] g
    by (simp add: notice_def)
qed

end
